theory Spec2Isabelle
  imports Main "HOL-Library.AList"
begin

section \<open>Errors\<close>

text \<open>
  Go errors are values compared by identity. The two sentinel errors of the repository
  (\<^verbatim>\<open>finalizer.ErrNotFound\<close> and \<^verbatim>\<open>release.ErrNotFound\<close>) and the error the
  uninstall finalizer builds for an unsupported object each get a constructor; every
  other error is \<open>OtherError\<close> with its message.
\<close>

datatype error =
    FinalizerErrNotFound
  | ReleaseErrNotFound
  | ErrUnsupportedFinalizable
  | OtherError string

fun Error :: "error \<Rightarrow> string" where
  "Error FinalizerErrNotFound = ''finalizer not found''"
| "Error ReleaseErrNotFound = ''release not found''"
| "Error ErrUnsupportedFinalizable =
     ''unsupported finalizable type, expected *unstructured.Unstructured''"
| "Error (OtherError msg) = msg"

section \<open>Status conditions (pkg/helm/internal/types)\<close>

datatype HelmAppConditionType =
    ConditionDeployed
  | ConditionReleaseFailed
  | ConditionOther string

datatype ConditionStatus = StatusTrue | StatusFalse | StatusUnknown

datatype HelmAppConditionReason =
    ReasonUninstallSuccessful
  | ReasonUninstallError
  | ReasonOther string

record HelmAppCondition =
  Type :: HelmAppConditionType
  Status :: ConditionStatus
  Reason :: HelmAppConditionReason
  Message :: string
  LastTransitionTime :: nat

record HelmAppStatus =
  Conditions :: "HelmAppCondition list"

section \<open>Finalizable resources\<close>

text \<open>
  \<^verbatim>\<open>Finalizable\<close> is an interface: a runtime object with \<^verbatim>\<open>GetFinalizers\<close> and
  \<^verbatim>\<open>SetFinalizers\<close>. Two kinds of implementation differ in what \<^verbatim>\<open>GetFinalizers\<close> hands
  out. \<open>UnstructuredObj\<close> is \<^verbatim>\<open>*unstructured.Unstructured\<close>, the type the helm controller
  passes: it builds a fresh slice on every call, so the caller works on a copy; the model
  keeps its finalizer names and its status block. \<open>StoredSliceObj\<close> is an object that
  keeps its finalizer names in a slice and hands out this very slice (as an object with
  a \<^verbatim>\<open>Finalizers []string\<close> field that returns it does): a caller who writes into the
  slice writes into the object. Its names are the cells of the stored slice, up to the
  length the object holds.
\<close>

record Unstructured =
  metadata_finalizers :: "string list"
  object_status :: HelmAppStatus

datatype Finalizable =
    UnstructuredObj Unstructured
  | StoredSliceObj "string list"

fun GetFinalizers :: "Finalizable \<Rightarrow> string list" where
  "GetFinalizers (UnstructuredObj u) = metadata_finalizers u"
| "GetFinalizers (StoredSliceObj stored) = stored"

fun hands_out_stored_slice :: "Finalizable \<Rightarrow> bool" where
  "hands_out_stored_slice (UnstructuredObj u) = False"
| "hands_out_stored_slice (StoredSliceObj stored) = True"

fun SetFinalizers :: "string list \<Rightarrow> Finalizable \<Rightarrow> Finalizable" where
  "SetFinalizers fs (UnstructuredObj u) = UnstructuredObj (u\<lparr>metadata_finalizers := fs\<rparr>)"
| "SetFinalizers fs (StoredSliceObj _) = StoredSliceObj fs"

text \<open>
  \<^verbatim>\<open>append(toFinalize[0:i], toFinalize[i+1:len(toFinalize)]...)\<close> never exceeds the
  capacity of \<open>toFinalize\<close>, so it writes into the array of \<open>toFinalize\<close>: the cells
  below \<open>i\<close> stay, the cells from \<open>i\<close> to \<open>len - 2\<close> take the name of the next cell, and
  the cells from \<open>len - 1\<close> on stay. \<open>remove_in_place\<close> is what a resource shows after
  this write. An object that hands out copies shows nothing of it. For an object that
  hands out its stored slice, the array written to is the stored one as long as no
  action has stored another slice; the model reads this off the names (the working names
  are the first names of the object). Such an object shows the cells of the array up to
  the length it holds: the names after \<open>i\<close> moved down by one, and the last name twice.
\<close>

fun remove_in_place :: "nat \<Rightarrow> string list \<Rightarrow> Finalizable \<Rightarrow> Finalizable" where
  "remove_in_place i toFinalize (UnstructuredObj u) = UnstructuredObj u"
| "remove_in_place i toFinalize (StoredSliceObj stored) =
     (if take (length toFinalize) stored = toFinalize
      then StoredSliceObj
             (take i toFinalize @ drop (i + 1) toFinalize @ drop (length toFinalize - 1) stored)
      else StoredSliceObj stored)"

section \<open>The finalizer manager (pkg/finalizer/finalizer.go)\<close>

text \<open>
  A finalize action receives the resource, may change it, and returns an error or nil.
  The manager maps names to actions; \<^verbatim>\<open>RegisterFinalizer\<close> overwrites an existing name.
  The map is an association list with distinct keys, so that \<^verbatim>\<open>Reconcile\<close> can range
  over it; Go leaves the order of that iteration open, and nothing below depends on it.
\<close>

type_synonym Finalizer = "Finalizable \<Rightarrow> error option \<times> Finalizable"

type_synonym Manager = "(string \<times> Finalizer) list"

definition NewManager :: Manager where
  "NewManager = []"

definition RegisterFinalizer :: "Manager \<Rightarrow> string \<Rightarrow> Finalizer \<Rightarrow> Manager" where
  "RegisterFinalizer fm name f = AList.update name f fm"

text \<open>
  What the manager does to its collaborators, in order: \<open>Ran name\<close> is one call of the
  action registered under \<open>name\<close>, \<open>SetFinalizersCall fs\<close> one call of
  \<^verbatim>\<open>finalizable.SetFinalizers(fs)\<close>.
\<close>

datatype event = is_Ran: Ran string | is_SetFinalizersCall: SetFinalizersCall "string list"

text \<open>
  The loop of \<^verbatim>\<open>Finalize\<close>. \<open>i\<close> is the index, \<open>toFinalize\<close> the working slice,
  \<open>r\<close> the resource as the actions so far have left it, \<open>tr\<close> the events so far.
  \<open>shared\<close> says that \<open>toFinalize\<close> is the slice the resource handed out of its own
  store, so that the removal of the name at \<open>i\<close> is written into the resource as
  well; the index stays where it is. On an error the function returns at once: there
  is no \<^verbatim>\<open>SetFinalizers\<close> call on this path.
\<close>

function Finalize_loop ::
  "Manager \<Rightarrow> bool \<Rightarrow> nat \<Rightarrow> string list \<Rightarrow> Finalizable \<Rightarrow> event list
     \<Rightarrow> error option \<times> Finalizable \<times> event list" where
  "Finalize_loop fm shared i toFinalize r tr =
     (if i < length toFinalize then
        (let name = toFinalize ! i in
         case map_of fm name of
           Some f \<Rightarrow>
             (case f r of
                (Some err, r') \<Rightarrow> (Some err, r', tr @ [Ran name])
              | (None, r') \<Rightarrow>
                  Finalize_loop fm shared i (take i toFinalize @ drop (i + 1) toFinalize)
                    (if shared then remove_in_place i toFinalize r' else r')
                    (tr @ [Ran name]))
         | None \<Rightarrow> Finalize_loop fm shared (i + 1) toFinalize r tr)
      else (None, SetFinalizers toFinalize r, tr @ [SetFinalizersCall toFinalize]))"
  by pat_completeness auto
termination
  by (relation "measure (\<lambda>(fm, shared, i, toFinalize, r, tr). length toFinalize - i)") auto

definition Finalize :: "Manager \<Rightarrow> Finalizable \<Rightarrow> error option \<times> Finalizable \<times> event list" where
  "Finalize fm finalizable =
     Finalize_loop fm (hands_out_stored_slice finalizable) 0 (GetFinalizers finalizable)
       finalizable []"

text \<open>
  The loop of \<^verbatim>\<open>FinalizeOne\<close>: drop the first element equal to \<open>name\<close>, then break.
  The removal is in place here too, but \<^verbatim>\<open>SetFinalizers(toFinalize)\<close> follows on every
  path out of the loop, so the resource ends with the working slice whichever slice it
  handed out.
\<close>

function FinalizeOne_loop :: "string \<Rightarrow> nat \<Rightarrow> string list \<Rightarrow> string list" where
  "FinalizeOne_loop name i toFinalize =
     (if i < length toFinalize then
        (if name = toFinalize ! i then take i toFinalize @ drop (i + 1) toFinalize
         else FinalizeOne_loop name (i + 1) toFinalize)
      else toFinalize)"
  by pat_completeness auto
termination
  by (relation "measure (\<lambda>(name, i, toFinalize). length toFinalize - i)") auto

definition FinalizeOne ::
  "Manager \<Rightarrow> string \<Rightarrow> Finalizable \<Rightarrow> error option \<times> Finalizable \<times> event list" where
  "FinalizeOne fm name finalizable =
     (case map_of fm name of
        None \<Rightarrow> (Some FinalizerErrNotFound, finalizable, [])
      | Some f \<Rightarrow>
          (case f finalizable of
             (Some err, r') \<Rightarrow> (Some err, r', [Ran name])
           | (None, r') \<Rightarrow>
               (let toFinalize = FinalizeOne_loop name 0 (GetFinalizers r') in
                (None, SetFinalizers toFinalize r', [Ran name, SetFinalizersCall toFinalize]))))"

text \<open>
  \<^verbatim>\<open>Reconcile\<close>: \<open>existingFinalizers\<close> is the set of the names on the resource; the
  loop over the registered names carries \<open>added\<close> and the local slice \<open>finalizers\<close>.
  The function returns \<open>added\<close> and a nil error; the local slice is not written back
  (the source has no \<^verbatim>\<open>SetFinalizers\<close> call here), so the resource and the event
  list are as they were.
\<close>

fun Reconcile_loop :: "string set \<Rightarrow> string list \<Rightarrow> bool \<times> string list \<Rightarrow> bool \<times> string list" where
  "Reconcile_loop existingFinalizers [] (added, finalizers) = (added, finalizers)"
| "Reconcile_loop existingFinalizers (f # names) (added, finalizers) =
     (if f \<notin> existingFinalizers
      then Reconcile_loop existingFinalizers names (True, finalizers @ [f])
      else Reconcile_loop existingFinalizers names (added, finalizers))"

definition Reconcile ::
  "Manager \<Rightarrow> Finalizable \<Rightarrow> (bool \<times> error option) \<times> Finalizable \<times> event list" where
  "Reconcile fm finalizable =
     (let finalizers = GetFinalizers finalizable;
          existingFinalizers = set finalizers;
          (added, finalizers') = Reconcile_loop existingFinalizers (map fst fm) (False, finalizers)
      in ((added, None), finalizable, []))"

definition ReconcileOne ::
  "string \<Rightarrow> Finalizable \<Rightarrow> (bool \<times> error option) \<times> Finalizable \<times> event list" where
  "ReconcileOne name finalizable =
     (let finalizers = GetFinalizers finalizable in
      if name \<in> set finalizers then ((False, None), finalizable, [])
      else ((True, None), SetFinalizers (finalizers @ [name]) finalizable,
            [SetFinalizersCall (finalizers @ [name])]))"

text \<open>A sequence of \<^verbatim>\<open>RegisterFinalizer\<close> calls on a new manager, first call first.\<close>

definition RegisterAll :: "(string \<times> Finalizer) list \<Rightarrow> Manager" where
  "RegisterAll regs = foldl (\<lambda>fm (name, f). RegisterFinalizer fm name f) NewManager regs"

section \<open>The uninstall finalizer (pkg/helm/controller/controller.go)\<close>

text \<open>
  Modelled from the spec: \<^verbatim>\<open>HelmAppStatus.SetCondition\<close> (pkg/helm/internal/types is
  not among the sources). At most one condition per type is present; setting a
  condition of a type that is present replaces it, keeping the last transition time
  when the status is unchanged and refreshing it when the status changes; a condition
  of a new type is added with the current time.
\<close>

fun SetCondition_list ::
  "nat \<Rightarrow> HelmAppCondition \<Rightarrow> HelmAppCondition list \<Rightarrow> HelmAppCondition list" where
  "SetCondition_list now condition [] = [condition\<lparr>LastTransitionTime := now\<rparr>]"
| "SetCondition_list now condition (c # cs) =
     (if Type c = Type condition then
        (if Status c \<noteq> Status condition
         then condition\<lparr>LastTransitionTime := now\<rparr>
         else condition\<lparr>LastTransitionTime := LastTransitionTime c\<rparr>) # cs
      else c # SetCondition_list now condition cs)"

definition SetCondition :: "nat \<Rightarrow> HelmAppCondition \<Rightarrow> HelmAppStatus \<Rightarrow> HelmAppStatus" where
  "SetCondition now condition s = s\<lparr>Conditions := SetCondition_list now condition (Conditions s)\<rparr>"

text \<open>
  Modelled from the spec: \<^verbatim>\<open>HelmAppStatus.RemoveCondition\<close> (pkg/helm/internal/types is
  not among the sources). It clears the condition of the given type.
\<close>

definition RemoveCondition :: "HelmAppConditionType \<Rightarrow> HelmAppStatus \<Rightarrow> HelmAppStatus" where
  "RemoveCondition conditionType s =
     s\<lparr>Conditions := filter (\<lambda>c. Type c \<noteq> conditionType) (Conditions s)\<rparr>"

text \<open>
  The collaborators of the reconciler that the uninstall finalizer calls, as parameters:
  \<open>UninstallRelease\<close> is \<^verbatim>\<open>r.ManagerFactory.NewManager(o).UninstallRelease(ctx)\<close> (the
  release it returns is only printed, so the outcome is the error or nil);
  \<open>updateResourceStatus\<close> is the status write of the reconciler (its result is the
  error or nil of the write); \<open>Now\<close> is the clock that \<^verbatim>\<open>SetCondition\<close> reads.
\<close>

record HelmOperatorReconciler =
  UninstallRelease :: "Unstructured \<Rightarrow> error option"
  updateResourceStatus :: "Unstructured \<Rightarrow> HelmAppStatus \<Rightarrow> error option"
  Now :: nat

text \<open>
  The function that \<^verbatim>\<open>NewUninstallFinalizer\<close> wraps. It returns the error, the
  resource \<open>u\<close> (the deferred function stores \<open>status\<close> under \<^verbatim>\<open>o.Object["status"]\<close>
  on every path after the type assertion) and the statuses handed to \<open>updateResourceStatus\<close>,
  in order.
\<close>

definition uninstall ::
  "HelmOperatorReconciler \<Rightarrow> Finalizable \<Rightarrow> (error option \<times> Finalizable) \<times> HelmAppStatus list" where
  "uninstall r cr =
     (case cr of
        StoredSliceObj stored \<Rightarrow> ((Some ErrUnsupportedFinalizable, cr), [])
      | UnstructuredObj u \<Rightarrow>
          (let status = object_status u;
               err = UninstallRelease r u
           in if err \<noteq> None \<and> err \<noteq> Some ReleaseErrNotFound then
                (let status = SetCondition (Now r)
                       \<lparr>Type = ConditionReleaseFailed, Status = StatusTrue,
                        Reason = ReasonUninstallError,
                        Message = (case err of Some e \<Rightarrow> Error e | None \<Rightarrow> []),
                        LastTransitionTime = 0\<rparr> status
                 in ((err, UnstructuredObj (u\<lparr>object_status := status\<rparr>)), [status]))
              else
                (let status = RemoveCondition ConditionReleaseFailed status;
                     status =
                       (if err = Some ReleaseErrNotFound then status
                        else SetCondition (Now r)
                          \<lparr>Type = ConditionDeployed, Status = StatusFalse,
                           Reason = ReasonUninstallSuccessful, Message = [],
                           LastTransitionTime = 0\<rparr> status)
                 in ((updateResourceStatus r u status,
                      UnstructuredObj (u\<lparr>object_status := status\<rparr>)), [status]))))"

definition NewUninstallFinalizer :: "HelmOperatorReconciler \<Rightarrow> Finalizer" where
  "NewUninstallFinalizer r = (\<lambda>cr. fst (uninstall r cr))"

text \<open>The finalizer manager that \<^verbatim>\<open>Add\<close> builds for the reconciler.\<close>

definition Add_FinalizerManager :: "HelmOperatorReconciler \<Rightarrow> Manager" where
  "Add_FinalizerManager r =
     RegisterFinalizer NewManager ''uninstall-helm-release'' (NewUninstallFinalizer r)"

section \<open>Dependent resources (pkg/helm/controller/controller.go)\<close>

subsection \<open>The predicate on dependent resource events\<close>

text \<open>
  The content of an unstructured object, \<^verbatim>\<open>map[string]interface{}\<close>: strings, numbers
  (as integers), booleans, nil, lists and maps with string keys. Two contents are
  deeply equal when they are equal as values.
\<close>

datatype jvalue =
    JNull
  | JBool bool
  | JInt int
  | JString string
  | JList "jvalue list"
  | JMap "string \<Rightarrow> jvalue option"

type_synonym UnstructuredContent = "string \<Rightarrow> jvalue option"

text \<open>
  \<^verbatim>\<open>SetResourceVersion\<close> of k8s.io/apimachinery stores the string under
  \<^verbatim>\<open>metadata.resourceVersion\<close>: it creates \<^verbatim>\<open>metadata\<close> when the object has none, and
  changes nothing when \<^verbatim>\<open>metadata\<close> is not a map.
\<close>

definition SetResourceVersion :: "string \<Rightarrow> UnstructuredContent \<Rightarrow> UnstructuredContent" where
  "SetResourceVersion version obj =
     (case obj ''metadata'' of
        None \<Rightarrow> obj(''metadata'' \<mapsto> JMap [''resourceVersion'' \<mapsto> JString version])
      | Some (JMap metadata) \<Rightarrow>
          obj(''metadata'' \<mapsto> JMap (metadata(''resourceVersion'' \<mapsto> JString version)))
      | Some _ \<Rightarrow> obj)"

text \<open>
  The events carry unstructured objects: \<open>CreateEvent\<close> and \<open>DeleteEvent\<close> the
  object, \<open>UpdateEvent\<close> the old and the new object, in this order.
\<close>

datatype CreateEvent = CreateEvent UnstructuredContent

datatype DeleteEvent = DeleteEvent UnstructuredContent

datatype UpdateEvent = UpdateEvent UnstructuredContent UnstructuredContent

fun CreateFunc :: "CreateEvent \<Rightarrow> bool" where
  "CreateFunc (CreateEvent obj) = False"

fun DeleteFunc :: "DeleteEvent \<Rightarrow> bool" where
  "DeleteFunc (DeleteEvent obj) = True"

fun UpdateFunc :: "UpdateEvent \<Rightarrow> bool" where
  "UpdateFunc (UpdateEvent ObjectOld ObjectNew) =
     (let old = ObjectOld(''status'' := None);
          new = ObjectNew(''status'' := None);
          old = SetResourceVersion [] old;
          new = SetResourceVersion [] new
      in if old = new then False else True)"

subsection \<open>The release hook: watches for the kinds of a release manifest\<close>

record GroupVersionKind =
  Group :: string
  Version :: string
  Kind :: string

datatype RESTScopeName = RESTScopeNameNamespace | RESTScopeNameRoot

text \<open>
  What the closure \<^verbatim>\<open>releaseHook\<close> captures and calls, as parameters: \<open>Decode\<close> gives
  the results of the successive \<^verbatim>\<open>dec.Decode\<close> calls on a manifest up to \<^verbatim>\<open>io.EOF\<close>
  (an error, or a document, of which the hook reads the group, version and kind only);
  \<open>RESTMapping\<close> is the lookup of a kind's scope with the manager's REST mapper;
  \<open>Watch\<close> is \<^verbatim>\<open>c.Watch\<close> for a kind with the owner handler and the dependent
  predicate; \<open>owner\<close> is the kind of the owner.
\<close>

record watch_env =
  Decode :: "string \<Rightarrow> (error + GroupVersionKind) list"
  RESTMapping :: "GroupVersionKind \<Rightarrow> error + RESTScopeName"
  Watch :: "GroupVersionKind \<Rightarrow> error option"
  owner :: GroupVersionKind

text \<open>The calls of a pass to the REST mapper and to \<^verbatim>\<open>c.Watch\<close>, in order.\<close>

datatype collaborator_call = RESTMappingCall GroupVersionKind | WatchCall GroupVersionKind

fun with_calls ::
  "collaborator_call list \<Rightarrow> error option \<times> GroupVersionKind set \<times> collaborator_call list
     \<Rightarrow> error option \<times> GroupVersionKind set \<times> collaborator_call list" where
  "with_calls calls (err, watches, calls') = (err, watches, calls @ calls')"

text \<open>
  The loop of \<^verbatim>\<open>releaseHook\<close> over the decoded documents. \<open>watches\<close> is the set of
  kinds seen so far; the result is the error or nil, the set afterwards and the calls
  made.
\<close>

fun releaseHook_loop ::
  "watch_env \<Rightarrow> (error + GroupVersionKind) list \<Rightarrow> GroupVersionKind set
     \<Rightarrow> error option \<times> GroupVersionKind set \<times> collaborator_call list" where
  "releaseHook_loop env [] watches = (None, watches, [])"
| "releaseHook_loop env (Inl err # docs) watches = (Some err, watches, [])"
| "releaseHook_loop env (Inr gvk # docs) watches =
     (if gvk \<in> watches then releaseHook_loop env docs watches
      else
        (case RESTMapping env gvk of
           Inl err \<Rightarrow> (Some err, watches, [RESTMappingCall gvk])
         | Inr depScope \<Rightarrow>
             (case RESTMapping env (owner env) of
                Inl err \<Rightarrow>
                  (Some err, watches, [RESTMappingCall gvk, RESTMappingCall (owner env)])
              | Inr ownerScope \<Rightarrow>
                  (let depClusterScoped = (depScope = RESTScopeNameRoot);
                       ownerClusterScoped = (ownerScope = RESTScopeNameRoot)
                   in if \<not> ownerClusterScoped \<and> depClusterScoped then
                        with_calls [RESTMappingCall gvk, RESTMappingCall (owner env)]
                          (releaseHook_loop env docs (insert gvk watches))
                      else
                        (case Watch env gvk of
                           Some err \<Rightarrow>
                             (Some err, watches,
                              [RESTMappingCall gvk, RESTMappingCall (owner env), WatchCall gvk])
                         | None \<Rightarrow>
                             with_calls [RESTMappingCall gvk, RESTMappingCall (owner env), WatchCall gvk]
                               (releaseHook_loop env docs (insert gvk watches)))))))"

definition releaseHook ::
  "watch_env \<Rightarrow> string \<Rightarrow> GroupVersionKind set
     \<Rightarrow> error option \<times> GroupVersionKind set \<times> collaborator_call list" where
  "releaseHook env manifest watches = releaseHook_loop env (Decode env manifest) watches"

section \<open>Properties of the specification and example inputs\<close>

text \<open>
  \<open>removes_exactly before after removed\<close>: the list \<open>after\<close> is \<open>before\<close> without the
  names in \<open>removed\<close>, the others kept in order. \<open>has_condition\<close>: the status holds a
  condition with this type, status, reason and message.
\<close>

definition removes_exactly :: "string list \<Rightarrow> string list \<Rightarrow> string set \<Rightarrow> bool" where
  "removes_exactly before after removed \<longleftrightarrow> after = filter (\<lambda>n. n \<notin> removed) before"

text \<open>
  The pass of \<^verbatim>\<open>Finalize\<close> told name by name, as the specification tells it: the names
  on the list are taken in order; a name with no registered action is kept; the action
  of a registered name is invoked with the resource as the actions before it left it;
  an error ends the pass at once; after the last name the kept names are written back.
  \<open>kept\<close> are the names kept so far. With \<open>shared\<close>, the removal of a name is seen
  in the resource before the next action runs, as \<open>remove_in_place\<close> says.
\<close>

fun finalize_each ::
  "bool \<Rightarrow> Manager \<Rightarrow> string list \<Rightarrow> string list \<Rightarrow> Finalizable \<Rightarrow> error option \<times> Finalizable" where
  "finalize_each shared fm kept [] r = (None, SetFinalizers kept r)"
| "finalize_each shared fm kept (name # names) r =
     (case map_of fm name of
        None \<Rightarrow> finalize_each shared fm (kept @ [name]) names r
      | Some f \<Rightarrow>
          (case f r of
             (Some err, r') \<Rightarrow> (Some err, r')
           | (None, r') \<Rightarrow>
               finalize_each shared fm kept names
                 (if shared then remove_in_place (length kept) (kept @ name # names) r' else r')))"

definition has_condition ::
  "HelmAppStatus \<Rightarrow> HelmAppConditionType \<Rightarrow> ConditionStatus \<Rightarrow> HelmAppConditionReason \<Rightarrow> string \<Rightarrow> bool" where
  "has_condition s t st reason msg \<longleftrightarrow>
     (\<exists>c\<in>set (Conditions s). Type c = t \<and> Status c = st \<and> Reason c = reason \<and> Message c = msg)"

text \<open>Actions, managers, resources and a reconciler for the examples.\<close>

definition succeed :: Finalizer where
  "succeed r = (None, r)"

definition fail_with :: "error \<Rightarrow> Finalizer" where
  "fail_with e r = (Some e, r)"

text \<open>
  \<open>note_run name\<close> leaves a trace of each of its runs in the status of an unstructured
  resource: a condition of the type \<open>name\<close>, added at the end.
\<close>

fun note_run :: "string \<Rightarrow> Finalizer" where
  "note_run name (UnstructuredObj u) =
     (None, UnstructuredObj (u\<lparr>object_status := (object_status u)\<lparr>Conditions :=
        Conditions (object_status u) @
          [\<lparr>Type = ConditionOther name, Status = StatusTrue, Reason = ReasonOther [],
            Message = [], LastTransitionTime = 0\<rparr>]\<rparr>\<rparr>))"
| "note_run name (StoredSliceObj stored) = (None, StoredSliceObj stored)"

definition ex_resource :: Finalizable where
  "ex_resource = UnstructuredObj \<lparr>metadata_finalizers = [''a'', ''b''],
                                   object_status = \<lparr>Conditions = []\<rparr>\<rparr>"

definition ex_stored :: Finalizable where
  "ex_stored = StoredSliceObj [''a'', ''b'']"

definition ex_twice :: Finalizable where
  "ex_twice = UnstructuredObj \<lparr>metadata_finalizers = [''a'', ''a''],
                                object_status = \<lparr>Conditions = []\<rparr>\<rparr>"

definition ex_noted :: Finalizable where
  "ex_noted = UnstructuredObj \<lparr>metadata_finalizers = [],
      object_status = \<lparr>Conditions =
        [\<lparr>Type = ConditionOther ''a'', Status = StatusTrue, Reason = ReasonOther [],
          Message = [], LastTransitionTime = 0\<rparr>,
         \<lparr>Type = ConditionOther ''b'', Status = StatusTrue, Reason = ReasonOther [],
          Message = [], LastTransitionTime = 0\<rparr>]\<rparr>\<rparr>"

definition ex_failing :: Manager where
  "ex_failing = RegisterAll [(''a'', succeed), (''b'', fail_with (OtherError ''boom''))]"

definition ex_fixed :: Manager where
  "ex_fixed = RegisterAll [(''a'', succeed), (''b'', succeed)]"

definition ex_mixed :: Finalizable where
  "ex_mixed = StoredSliceObj [''x'', ''a'', ''y'']"

definition ex_reconciler :: "error option \<Rightarrow> HelmOperatorReconciler" where
  "ex_reconciler outcome =
     \<lparr>UninstallRelease = (\<lambda>u. outcome), updateResourceStatus = (\<lambda>u s. None), Now = 7\<rparr>"

definition ex_cr :: Unstructured where
  "ex_cr = \<lparr>metadata_finalizers = [''uninstall-helm-release''],
            object_status = \<lparr>Conditions = []\<rparr>\<rparr>"

text \<open>Objects, kinds and collaborators of the release hook for the examples.\<close>

definition ex_old :: UnstructuredContent where
  "ex_old = [''kind'' \<mapsto> JString ''Deployment'',
             ''metadata'' \<mapsto> JMap [''name'' \<mapsto> JString ''web'',
                                    ''resourceVersion'' \<mapsto> JString ''1''],
             ''spec'' \<mapsto> JMap [''replicas'' \<mapsto> JInt 1],
             ''status'' \<mapsto> JMap [''readyReplicas'' \<mapsto> JInt 0]]"

definition ex_status_changed :: UnstructuredContent where
  "ex_status_changed =
     SetResourceVersion ''2'' (ex_old(''status'' \<mapsto> JMap [''readyReplicas'' \<mapsto> JInt 1]))"

definition ex_spec_changed :: UnstructuredContent where
  "ex_spec_changed = ex_old(''spec'' \<mapsto> JMap [''replicas'' \<mapsto> JInt 2])"

definition ex_deployment :: GroupVersionKind where
  "ex_deployment = \<lparr>Group = ''apps'', Version = ''v1'', Kind = ''Deployment''\<rparr>"

definition ex_clusterrole :: GroupVersionKind where
  "ex_clusterrole =
     \<lparr>Group = ''rbac.authorization.k8s.io'', Version = ''v1'', Kind = ''ClusterRole''\<rparr>"

definition ex_service :: GroupVersionKind where
  "ex_service = \<lparr>Group = [], Version = ''v1'', Kind = ''Service''\<rparr>"

definition ex_owner :: GroupVersionKind where
  "ex_owner = \<lparr>Group = ''example.com'', Version = ''v1alpha1'', Kind = ''Nginx''\<rparr>"

definition ex_env :: "(error + GroupVersionKind) list \<Rightarrow> watch_env" where
  "ex_env docs =
     \<lparr>Decode = (\<lambda>manifest. docs),
      RESTMapping = (\<lambda>gvk. if Kind gvk = ''ClusterRole'' then Inr RESTScopeNameRoot
                             else Inr RESTScopeNameNamespace),
      Watch = (\<lambda>gvk. None),
      owner = ex_owner\<rparr>"

section \<open>Facts about the finalizer manager\<close>

declare Finalize_loop.simps [simp del]

declare FinalizeOne_loop.simps [simp del]

lemma GetFinalizers_SetFinalizers [simp]: "GetFinalizers (SetFinalizers fs r) = fs"
  by (cases r) simp_all

text \<open>
One step of the loop of \<^verbatim>\<open>Finalize\<close>, case by case.
\<close>

lemma Finalize_loop_done:
  "\<not> i < length l \<Longrightarrow>
   Finalize_loop fm shared i l r tr = (None, SetFinalizers l r, tr @ [SetFinalizersCall l])"
  by (subst Finalize_loop.simps) simp

lemma Finalize_loop_skip:
  "i < length l \<Longrightarrow> map_of fm (l ! i) = None \<Longrightarrow>
   Finalize_loop fm shared i l r tr = Finalize_loop fm shared (i + 1) l r tr"
  by (subst Finalize_loop.simps) simp

lemma Finalize_loop_fail:
  "i < length l \<Longrightarrow> map_of fm (l ! i) = Some f \<Longrightarrow> f r = (Some e, r') \<Longrightarrow>
   Finalize_loop fm shared i l r tr = (Some e, r', tr @ [Ran (l ! i)])"
  by (subst Finalize_loop.simps) simp

lemma Finalize_loop_ok:
  "i < length l \<Longrightarrow> map_of fm (l ! i) = Some f \<Longrightarrow> f r = (None, r') \<Longrightarrow>
   Finalize_loop fm shared i l r tr =
     Finalize_loop fm shared i (take i l @ drop (i + 1) l)
       (if shared then remove_in_place i l r' else r') (tr @ [Ran (l ! i)])"
  by (subst Finalize_loop.simps) simp

text \<open>
  A pass that returns nil has run the action of every registered name from \<open>i\<close> on,
  in order, and has written back the names without a registered action.
\<close>

lemma Finalize_loop_nil:
  "Finalize_loop fm shared i l r tr = (None, r', tr') \<Longrightarrow> i \<le> length l \<Longrightarrow>
   GetFinalizers r' = take i l @ filter (\<lambda>n. map_of fm n = None) (drop i l) \<and>
   tr' = tr @ map Ran (filter (\<lambda>n. map_of fm n \<noteq> None) (drop i l))
            @ [SetFinalizersCall (take i l @ filter (\<lambda>n. map_of fm n = None) (drop i l))]"
proof (induction fm shared i l r tr rule: Finalize_loop.induct)
  case (1 fm shared i l r tr)
  show ?case
  proof (cases "i < length l")
    case False
    with "1.prems" show ?thesis
      by (auto simp add: Finalize_loop_done)
  next
    case True
    note lt = True
    have dr: "drop i l = l ! i # drop (Suc i) l"
      using lt by (simp add: Cons_nth_drop_Suc)
    show ?thesis
    proof (cases "map_of fm (l ! i)")
      case None
      from "1.prems"(1) lt None
      have rec: "Finalize_loop fm shared (i + 1) l r tr = (None, r', tr')"
        by (simp add: Finalize_loop_skip)
      from "1.IH"(1)[OF lt refl None rec] lt
      show ?thesis
        using None by (simp add: dr take_Suc_conv_app_nth)
    next
      case (Some f)
      obtain e r2 where fr: "f r = (e, r2)" by (cases "f r")
      have e: "e = None"
      proof (cases e)
        case (Some err)
        with "1.prems"(1) lt \<open>map_of fm (l ! i) = Some f\<close> fr show ?thesis
          by (simp add: Finalize_loop_fail)
      qed simp
      from "1.prems"(1) lt Some fr e
      have rec: "Finalize_loop fm shared i (take i l @ drop (i + 1) l)
          (if shared then remove_in_place i l r2 else r2) (tr @ [Ran (l ! i)]) = (None, r', tr')"
        by (simp add: Finalize_loop_ok)
      have le: "i \<le> length (take i l @ drop (i + 1) l)" using lt by simp
      have tk: "take i (take i l @ drop (i + 1) l) = take i l" using lt by simp
      have dp: "drop i (take i l @ drop (i + 1) l) = drop (Suc i) l" using lt by simp
      from "1.IH"(2)[OF lt refl Some fr[symmetric] e rec le, unfolded tk dp]
      show ?thesis
        using Some by (simp add: dr)
    qed
  qed
qed

text \<open>
  A pass that returns an error: the resource is what the actions left (any property
  \<open>P\<close> that the registered actions preserve still holds), the last event is the call of
  the action that failed, and nothing was written back.
\<close>

lemma Finalize_loop_err:
  "Finalize_loop fm shared i l r tr = (Some e, r', tr') \<Longrightarrow> \<not> shared \<Longrightarrow>
   \<forall>n f x. map_of fm n = Some f \<longrightarrow> P x \<longrightarrow> P (snd (f x)) \<Longrightarrow> P r \<Longrightarrow>
    P r' \<and> (\<exists>ns n f x. tr' = tr @ map Ran ns @ [Ran n] \<and> n \<in> set l \<and> map_of fm n = Some f
            \<and> P x \<and> f x = (Some e, r'))"
proof (induction fm shared i l r tr rule: Finalize_loop.induct)
  case (1 fm shared i l r tr)
  note ns = \<open>\<not> shared\<close>
  show ?case
  proof (cases "i < length l")
    case False
    with "1.prems"(1) show ?thesis
      by (simp add: Finalize_loop_done)
  next
    case True
    note lt = True
    show ?thesis
    proof (cases "map_of fm (l ! i)")
      case None
      from "1.prems"(1) lt None
      have rec: "Finalize_loop fm shared (i + 1) l r tr = (Some e, r', tr')"
        by (simp add: Finalize_loop_skip)
      from "1.IH"(1)[OF lt refl None rec ns "1.prems"(3) "1.prems"(4)]
      show ?thesis by simp
    next
      case (Some f)
      obtain e2 r2 where fr: "f r = (e2, r2)" by (cases "f r")
      have P2: "P r2" using "1.prems"(3) Some "1.prems"(4) fr by (metis snd_conv)
      show ?thesis
      proof (cases e2)
        case None
        from "1.prems"(1) lt Some fr None
        have rec: "Finalize_loop fm shared i (take i l @ drop (i + 1) l)
            (if shared then remove_in_place i l r2 else r2) (tr @ [Ran (l ! i)]) = (Some e, r', tr')"
          by (simp add: Finalize_loop_ok)
        have P2': "P (if shared then remove_in_place i l r2 else r2)"
          using P2 ns by simp
        from "1.IH"(2)[OF lt refl Some fr[symmetric] None rec ns "1.prems"(3) P2']
        obtain ns n g x where *: "P r'" "tr' = (tr @ [Ran (l ! i)]) @ map Ran ns @ [Ran n]"
          "n \<in> set (take i l @ drop (i + 1) l)" "map_of fm n = Some g" "P x" "g x = (Some e, r')"
          by blast
        have "n \<in> set l" using *(3) by (auto dest: in_set_takeD in_set_dropD)
        moreover have "tr' = tr @ map Ran (l ! i # ns) @ [Ran n]" using *(2) by simp
        ultimately show ?thesis using * by blast
      next
        case (Some err)
        with "1.prems"(1) lt \<open>map_of fm (l ! i) = Some f\<close> fr
        have "e = err" "r' = r2" "tr' = tr @ [Ran (l ! i)]"
          by (simp_all add: Finalize_loop_fail)
        moreover have "tr @ [Ran (l ! i)] = tr @ map Ran [] @ [Ran (l ! i)]" by simp
        moreover have "l ! i \<in> set l" using lt by simp
        ultimately show ?thesis
          using P2 \<open>map_of fm (l ! i) = Some f\<close> fr Some "1.prems"(4) by blast
      qed
    qed
  qed
qed

lemma Finalize_nil:
  assumes "Finalize fm r = (None, r', tr)"
  shows "GetFinalizers r' = filter (\<lambda>n. map_of fm n = None) (GetFinalizers r)"
    and "tr = map Ran (filter (\<lambda>n. map_of fm n \<noteq> None) (GetFinalizers r))
            @ [SetFinalizersCall (filter (\<lambda>n. map_of fm n = None) (GetFinalizers r))]"
  using Finalize_loop_nil[of fm "hands_out_stored_slice r" 0 "GetFinalizers r" r "[]" r' tr] assms
  by (simp_all add: Finalize_def)

lemma Finalize_err:
  assumes "Finalize fm r = (Some e, r', tr)"
    and "\<not> hands_out_stored_slice r"
    and "\<forall>n f x. map_of fm n = Some f \<longrightarrow> P x \<longrightarrow> P (snd (f x))"
    and "P r"
  shows "P r'"
    and "\<exists>ns n f x. tr = map Ran ns @ [Ran n] \<and> n \<in> set (GetFinalizers r) \<and> map_of fm n = Some f
            \<and> P x \<and> f x = (Some e, r')"
  using Finalize_loop_err[of fm "hands_out_stored_slice r" 0 "GetFinalizers r" r "[]" e r' tr P] assms
  by (simp_all add: Finalize_def)

lemma Finalize_loop_skip_many:
  "i \<le> k \<Longrightarrow> k \<le> length l \<Longrightarrow> \<forall>j. i \<le> j \<and> j < k \<longrightarrow> map_of fm (l ! j) = None \<Longrightarrow>
   Finalize_loop fm shared i l r tr = Finalize_loop fm shared k l r tr"
proof (induction "k - i" arbitrary: i)
  case 0
  then show ?case by simp
next
  case (Suc d)
  then have lt: "i < k" "i < length l" by auto
  with Suc.prems have none: "map_of fm (l ! i) = None" by auto
  have "Finalize_loop fm shared i l r tr = Finalize_loop fm shared (i + 1) l r tr"
    using lt none by (simp add: Finalize_loop_skip)
  also have "\<dots> = Finalize_loop fm shared k l r tr"
    using Suc.hyps(1)[of "i + 1"] Suc.hyps(2) Suc.prems lt by auto
  finally show ?case .
qed

text \<open>
One registered name on the list, once: the action runs on the resource as it came.
\<close>

lemma Finalize_single:
  assumes copy: "\<not> hands_out_stored_slice x"
    and l: "GetFinalizers x = pre @ name # post"
    and reg: "map_of fm name = Some f"
    and others: "\<forall>n\<in>set pre \<union> set post. map_of fm n = None"
  shows "Finalize fm x =
    (case f x of
       (Some err, x') \<Rightarrow> (Some err, x', [Ran name])
     | (None, x') \<Rightarrow> (None, SetFinalizers (pre @ post) x', [Ran name, SetFinalizersCall (pre @ post)]))"
proof -
  let ?l = "pre @ name # post"
  let ?k = "length pre"
  have pre: "\<forall>j. 0 \<le> j \<and> j < ?k \<longrightarrow> map_of fm (?l ! j) = None"
    using others by (auto simp: nth_append)
  have start: "Finalize fm x = Finalize_loop fm False ?k ?l x []"
    unfolding Finalize_def l using copy
    by (simp add: Finalize_loop_skip_many[OF _ _ pre])
  have at: "?l ! ?k = name" "?k < length ?l" by simp_all
  obtain e x' where fx: "f x = (e, x')" by (cases "f x")
  show ?thesis
  proof (cases e)
    case (Some err)
    have "Finalize_loop fm False ?k ?l x [] = (Some err, x', [] @ [Ran (?l ! ?k)])"
      by (rule Finalize_loop_fail[where f = f, OF at(2)]) (simp_all add: reg fx Some)
    then show ?thesis by (simp add: start fx Some)
  next
    case None
    let ?l' = "pre @ post"
    have step: "Finalize_loop fm False ?k ?l x [] =
        Finalize_loop fm False ?k (take ?k ?l @ drop (?k + 1) ?l) x' ([] @ [Ran (?l ! ?k)])"
      using Finalize_loop_ok[where f = f and shared = False, OF at(2), of fm x x' "[]"]
      by (simp add: reg fx None)
    have l': "take ?k ?l @ drop (?k + 1) ?l = ?l'" by simp
    have post: "\<forall>j. ?k \<le> j \<and> j < length ?l' \<longrightarrow> map_of fm (?l' ! j) = None"
      using others by (auto simp: nth_append)
    have rest: "Finalize_loop fm False ?k ?l' x' [Ran name] =
        Finalize_loop fm False (length ?l') ?l' x' [Ran name]"
      by (rule Finalize_loop_skip_many[OF _ _ post]) simp_all
    have fin: "Finalize_loop fm False (length ?l') ?l' x' [Ran name] =
        (None, SetFinalizers ?l' x', [Ran name] @ [SetFinalizersCall ?l'])"
      by (rule Finalize_loop_done) simp
    show ?thesis
      using step rest fin by (simp add: start fx None l')
  qed
qed

text \<open>
  The loop with its index and its removals in place does what \<open>finalize_each\<close> tells
  name by name: \<open>kept\<close> are the names below the index, the names still to come are
  the rest of the working slice.
\<close>

lemma Finalize_loop_each:
  "Finalize_loop fm shared (length kept) (kept @ names) r tr = (e, r', tr') \<Longrightarrow>
   finalize_each shared fm kept names r = (e, r')"
proof (induction names arbitrary: kept r tr)
  case Nil
  then show ?case by (simp add: Finalize_loop_done)
next
  case (Cons name names)
  let ?l = "kept @ name # names"
  have at: "length kept < length ?l" "?l ! length kept = name" by simp_all
  show ?case
  proof (cases "map_of fm name")
    case None
    have "Finalize_loop fm shared (length kept) ?l r tr =
        Finalize_loop fm shared (length kept + 1) ?l r tr"
      by (rule Finalize_loop_skip) (simp_all add: None)
    with Cons.prems have "Finalize_loop fm shared (length (kept @ [name])) ((kept @ [name]) @ names) r tr
        = (e, r', tr')"
      by simp
    from Cons.IH[OF this] show ?thesis by (simp add: None)
  next
    case (Some f)
    obtain e2 r2 where fr: "f r = (e2, r2)" by (cases "f r")
    show ?thesis
    proof (cases e2)
      case (Some err)
      have "Finalize_loop fm shared (length kept) ?l r tr = (Some err, r2, tr @ [Ran (?l ! length kept)])"
        by (rule Finalize_loop_fail[where f = f]) (simp_all add: \<open>map_of fm name = Some f\<close> fr Some)
      with Cons.prems have "e = Some err" "r' = r2" by simp_all
      then show ?thesis
        by (simp add: \<open>map_of fm name = Some f\<close> fr Some)
    next
      case None
      have l': "take (length kept) ?l @ drop (length kept + 1) ?l = kept @ names" by simp
      have "Finalize_loop fm shared (length kept) ?l r tr =
          Finalize_loop fm shared (length kept) (take (length kept) ?l @ drop (length kept + 1) ?l)
            (if shared then remove_in_place (length kept) ?l r2 else r2)
            (tr @ [Ran (?l ! length kept)])"
        by (rule Finalize_loop_ok[where f = f]) (simp_all add: \<open>map_of fm name = Some f\<close> fr None)
      with Cons.prems have "Finalize_loop fm shared (length kept) (kept @ names)
            (if shared then remove_in_place (length kept) ?l r2 else r2)
            (tr @ [Ran name]) = (e, r', tr')"
        by (simp only: l' at)
      from Cons.IH[OF this] show ?thesis
        by (simp add: \<open>map_of fm name = Some f\<close> fr None)
    qed
  qed
qed

lemma Finalize_each:
  "Finalize fm r = (e, r', tr) \<Longrightarrow>
   finalize_each (hands_out_stored_slice r) fm [] (GetFinalizers r) r = (e, r')"
  using Finalize_loop_each[of fm "hands_out_stored_slice r" "[]" "GetFinalizers r" r "[]" e r' tr]
  by (simp add: Finalize_def)

lemma count_list_map_Ran: "count_list (map Ran xs) (Ran n) = count_list xs n"
  by (induction xs) auto

lemma count_list_filter: "count_list (filter P xs) n = (if P n then count_list xs n else 0)"
  by (induction xs) auto

lemma count_list_distinct: "distinct xs \<Longrightarrow> n \<in> set xs \<Longrightarrow> count_list xs n = 1"
  by (induction xs) auto

lemma filter_is_Set_map_Ran: "filter is_SetFinalizersCall (map Ran xs) = []"
  by (induction xs) auto

lemma map_of_RegisterFinalizer:
  "map_of (RegisterFinalizer fm name f) = (map_of fm)(name \<mapsto> f)"
  by (simp add: RegisterFinalizer_def update_conv')

lemma map_of_foldl_Register:
  "map_of (foldl (\<lambda>fm (name, f). RegisterFinalizer fm name f) fm regs) = map_of fm ++ map_of (rev regs)"
proof (induction regs arbitrary: fm)
  case Nil
  show ?case by simp
next
  case (Cons a regs)
  obtain n f where a: "a = (n, f)" by (cases a)
  show ?case
    by (simp add: a Cons map_of_RegisterFinalizer map_add_upd_left fun_eq_iff map_add_def split: option.splits)
qed

lemma map_of_RegisterAll:
  "distinct (map fst regs) \<Longrightarrow> (n, f) \<in> set regs \<Longrightarrow> map_of (RegisterAll regs) n = Some f"
  by (simp add: RegisterAll_def map_of_foldl_Register NewManager_def distinct_map inj_on_def
        )

lemma FinalizeOne_loop_remove1:
  "i \<le> length l \<Longrightarrow> FinalizeOne_loop name i l = take i l @ remove1 name (drop i l)"
proof (induction name i l rule: FinalizeOne_loop.induct)
  case (1 name i l)
  show ?case
  proof (cases "i < length l")
    case False
    with "1.prems" show ?thesis by (subst FinalizeOne_loop.simps) simp
  next
    case True
    have dr: "drop i l = l ! i # drop (Suc i) l"
      using True by (simp add: Cons_nth_drop_Suc)
    show ?thesis
    proof (cases "name = l ! i")
      case True
      with \<open>i < length l\<close> show ?thesis
        by (subst FinalizeOne_loop.simps) (simp add: dr)
    next
      case False
      with \<open>i < length l\<close> "1.IH"[OF \<open>i < length l\<close> False] show ?thesis
        by (subst FinalizeOne_loop.simps) (simp add: dr take_Suc_conv_app_nth)
    qed
  qed
qed

lemma Reconcile_loop_eq:
  "Reconcile_loop ex names (added, fs) =
     (added \<or> (\<exists>n\<in>set names. n \<notin> ex), fs @ filter (\<lambda>n. n \<notin> ex) names)"
  by (induction names arbitrary: added fs) auto

lemma Reconcile_eq:
  "Reconcile fm r = ((\<exists>n\<in>set (map fst fm). n \<notin> set (GetFinalizers r), None), r, [])"
  by (simp add: Reconcile_def Reconcile_loop_eq)

text \<open>
The examples, evaluated.
\<close>

lemma ex_failing_eq: "ex_failing = [(''a'', succeed), (''b'', fail_with (OtherError ''boom''))]"
  by (simp add: ex_failing_def RegisterAll_def RegisterFinalizer_def NewManager_def)

lemma ex_fixed_eq: "ex_fixed = [(''a'', succeed), (''b'', succeed)]"
  by (simp add: ex_fixed_def RegisterAll_def RegisterFinalizer_def NewManager_def)

lemma ex_resource_names: "GetFinalizers ex_resource = [''a'', ''b'']"
  by (simp add: ex_resource_def)

lemma ex_resource_copy: "\<not> hands_out_stored_slice ex_resource"
  by (simp add: ex_resource_def)

lemma ex_noted_run:
  "Finalize (RegisterAll [(''a'', note_run ''a''), (''b'', note_run ''b'')]) ex_resource =
     (None, ex_noted, [Ran ''a'', Ran ''b'', SetFinalizersCall []])"
  by (simp add: ex_resource_def ex_noted_def RegisterAll_def RegisterFinalizer_def NewManager_def
        Finalize_def Finalize_loop.simps Let_def)

lemma ex_failing_run:
  "Finalize ex_failing ex_resource = (Some (OtherError ''boom''), ex_resource, [Ran ''a'', Ran ''b''])"
  by (simp add: Finalize_def ex_failing_eq ex_resource_def Finalize_loop.simps Let_def succeed_def
        fail_with_def)

lemma ex_fixed_run:
  "Finalize ex_fixed ex_resource =
     (None, SetFinalizers [] ex_resource, [Ran ''a'', Ran ''b'', SetFinalizersCall []])"
  by (simp add: Finalize_def ex_fixed_eq ex_resource_def Finalize_loop.simps Let_def succeed_def)

lemma ex_mixed_run:
  "Finalize ex_fixed ex_mixed =
     (None, StoredSliceObj [''x'', ''y''], [Ran ''a'', SetFinalizersCall [''x'', ''y'']])"
  by (simp add: Finalize_def ex_fixed_eq ex_mixed_def Finalize_loop.simps Let_def succeed_def)

section \<open>Claims about the finalizer manager\<close>

text \<open>
  C1. The claim: \<^verbatim>\<open>Reconcile\<close> puts every registered name that is missing on the
  resource's finalizer list and returns true iff a name was added. What the code does:
  for every manager and resource, \<^verbatim>\<open>Reconcile\<close> returns true iff some registered name
  is missing, and leaves the resource as it was, with no \<^verbatim>\<open>SetFinalizers\<close> call. On the
  list \<open>["a"]\<close> with \<open>a\<close> and \<open>b\<close> registered it returns true and the list stays
  \<open>["a"]\<close>, and a second call returns true again.
\<close>

theorem Reconcile_leaves_resource_unchanged:
  "Reconcile fm r = ((\<exists>n\<in>set (map fst fm). n \<notin> set (GetFinalizers r), None), r, [])
   \<and> Reconcile (RegisterAll [(''a'', f), (''b'', g)]) (StoredSliceObj [''a'']) =
         ((True, None), StoredSliceObj [''a''], [])
   \<and> fst (fst (Reconcile (RegisterAll [(''a'', f), (''b'', g)])
         (fst (snd (Reconcile (RegisterAll [(''a'', f), (''b'', g)]) (StoredSliceObj [''a'']))))))
       = True"
  by (simp add: Reconcile_eq RegisterAll_def RegisterFinalizer_def NewManager_def)

text \<open>
  C2, the claim as stated fails, also on a resource that hands out copies of its list
  (an unstructured object). With \<open>a\<close> and \<open>b\<close> on the list, the action of \<open>a\<close>
  succeeding and the action of \<open>b\<close> failing, the first \<^verbatim>\<open>Finalize\<close> runs both actions
  and returns the error of \<open>b\<close> with the resource unchanged. The second call, with the
  action of \<open>b\<close> now succeeding, empties the list: it removes \<open>a\<close> as well, which is
  neither the failed name nor a name not yet attempted.
\<close>

theorem Finalize_retry_counterexample:
  "\<not> hands_out_stored_slice ex_resource
   \<and> GetFinalizers ex_resource = [''a'', ''b'']
   \<and> Finalize ex_failing ex_resource = (Some (OtherError ''boom''), ex_resource, [Ran ''a'', Ran ''b''])
   \<and> Finalize ex_fixed ex_resource =
        (None, SetFinalizers [] ex_resource, [Ran ''a'', Ran ''b'', SetFinalizersCall []])
   \<and> GetFinalizers (fst (snd (Finalize ex_fixed ex_resource))) = []
   \<and> \<not> removes_exactly (GetFinalizers ex_resource)
          (GetFinalizers (fst (snd (Finalize ex_fixed ex_resource)))) {''b''}"
  by (simp add: ex_failing_run ex_fixed_run removes_exactly_def ex_resource_names ex_resource_copy)

text \<open>
  C2, amended. The resource hands out a copy of its finalizer list (as an unstructured
  object does), and no registered action changes the list. When \<^verbatim>\<open>Finalize\<close> returns
  an error, the list on the resource is unchanged, no
  \<^verbatim>\<open>SetFinalizers\<close> call was made, and the last event is the call of an action on the
  list that returned this error. A second \<^verbatim>\<open>Finalize\<close> on the resource that returns nil
  runs the action of every registered name on the list again, also of the names whose
  actions had succeeded in the first call, and removes all of these names.
\<close>

theorem Finalize_error_keeps_list_retry_removes_registered:
  assumes copy: "\<not> hands_out_stored_slice r"
    and frame: "\<forall>n f x. map_of fm n = Some f \<longrightarrow> GetFinalizers (snd (f x)) = GetFinalizers x"
    and run: "Finalize fm r = (Some e, r1, t1)"
  shows "GetFinalizers r1 = GetFinalizers r
    \<and> (\<forall>fs. SetFinalizersCall fs \<notin> set t1)
    \<and> (\<exists>n f x. last t1 = Ran n \<and> n \<in> set (GetFinalizers r) \<and> map_of fm n = Some f
           \<and> f x = (Some e, r1))
    \<and> (\<forall>fm2 r2 t2. Finalize fm2 r1 = (None, r2, t2) \<longrightarrow>
           GetFinalizers r2 = filter (\<lambda>n. map_of fm2 n = None) (GetFinalizers r)
           \<and> t2 = map Ran (filter (\<lambda>n. map_of fm2 n \<noteq> None) (GetFinalizers r))
                  @ [SetFinalizersCall (GetFinalizers r2)])"
proof -
  let ?P = "\<lambda>x. GetFinalizers x = GetFinalizers r"
  have pres: "\<forall>n f x. map_of fm n = Some f \<longrightarrow> ?P x \<longrightarrow> ?P (snd (f x))"
    using frame by simp
  have same: "GetFinalizers r1 = GetFinalizers r"
    using Finalize_err(1)[OF run copy pres] by simp
  obtain ns n f x where tr: "t1 = map Ran ns @ [Ran n]" and n: "n \<in> set (GetFinalizers r)"
      and f: "map_of fm n = Some f" "f x = (Some e, r1)"
    using Finalize_err(2)[OF run copy pres] by auto
  have noset: "\<forall>fs. SetFinalizersCall fs \<notin> set t1"
    by (auto simp: tr)
  have lst: "last t1 = Ran n" by (simp add: tr)
  have retry: "\<forall>fm2 r2 t2. Finalize fm2 r1 = (None, r2, t2) \<longrightarrow>
           GetFinalizers r2 = filter (\<lambda>n. map_of fm2 n = None) (GetFinalizers r)
           \<and> t2 = map Ran (filter (\<lambda>n. map_of fm2 n \<noteq> None) (GetFinalizers r))
                  @ [SetFinalizersCall (GetFinalizers r2)]"
  proof (intro allI impI)
    fix fm2 r2 t2
    assume a: "Finalize fm2 r1 = (None, r2, t2)"
    from Finalize_nil[OF a] show "GetFinalizers r2 = filter (\<lambda>n. map_of fm2 n = None) (GetFinalizers r)
           \<and> t2 = map Ran (filter (\<lambda>n. map_of fm2 n \<noteq> None) (GetFinalizers r))
                  @ [SetFinalizersCall (GetFinalizers r2)]"
      by (simp add: same)
  qed
  show ?thesis using same noset lst n f retry by blast
qed

theorem Finalize_error_keeps_list_retry_removes_registered_witness:
  "\<not> hands_out_stored_slice ex_resource
   \<and> Finalize ex_failing ex_resource = (Some (OtherError ''boom''), ex_resource, [Ran ''a'', Ran ''b''])
   \<and> GetFinalizers ex_resource = [''a'', ''b'']
   \<and> last [Ran ''a'', Ran ''b''] = Ran ''b''
   \<and> Finalize ex_fixed ex_resource =
        (None, SetFinalizers [] ex_resource, [Ran ''a'', Ran ''b'', SetFinalizersCall []])
   \<and> GetFinalizers (SetFinalizers [] ex_resource) =
        filter (\<lambda>n. map_of ex_fixed n = None) (GetFinalizers ex_resource)"
proof -
  have frame: "\<forall>n f x. map_of ex_failing n = Some f \<longrightarrow> GetFinalizers (snd (f x)) = GetFinalizers x"
    by (simp add: ex_failing_eq succeed_def fail_with_def)
  note inst = Finalize_error_keeps_list_retry_removes_registered[OF ex_resource_copy frame ex_failing_run]
  note retry = inst[THEN conjunct2, THEN conjunct2, THEN conjunct2, rule_format, OF ex_fixed_run]
  have "GetFinalizers (SetFinalizers [] ex_resource) =
        filter (\<lambda>n. map_of ex_fixed n = None) (GetFinalizers ex_resource)"
    by (rule retry[THEN conjunct1])
  then show ?thesis
    using ex_failing_run ex_fixed_run ex_resource_copy by (simp add: ex_resource_names)
qed

text \<open>
  C3, the claim as stated fails. With the name \<open>a\<close> on the list twice and an action
  registered under \<open>a\<close>, \<^verbatim>\<open>Finalize\<close> returns nil and has run the action twice: the
  events show two calls, and the action has left two marks in the status.
\<close>

theorem Finalize_duplicate_name_counterexample:
  "distinct (map fst [(''a'', note_run ''a'')])
   \<and> GetFinalizers ex_twice = [''a'', ''a'']
   \<and> Finalize (RegisterAll [(''a'', note_run ''a'')]) ex_twice =
        (None,
         UnstructuredObj \<lparr>metadata_finalizers = [],
           object_status = \<lparr>Conditions =
             [\<lparr>Type = ConditionOther ''a'', Status = StatusTrue, Reason = ReasonOther [],
               Message = [], LastTransitionTime = 0\<rparr>,
              \<lparr>Type = ConditionOther ''a'', Status = StatusTrue, Reason = ReasonOther [],
               Message = [], LastTransitionTime = 0\<rparr>]\<rparr>\<rparr>,
         [Ran ''a'', Ran ''a'', SetFinalizersCall []])
   \<and> count_list [Ran ''a'', Ran ''a'', SetFinalizersCall []] (Ran ''a'') \<noteq> 1"
  by (simp add: ex_twice_def RegisterAll_def RegisterFinalizer_def NewManager_def Finalize_def
        Finalize_loop.simps Let_def)

text \<open>
  C3, amended. After \<^verbatim>\<open>RegisterFinalizer\<close> calls with distinct names, a \<^verbatim>\<open>Finalize\<close> that
  returns nil has run each registered action once for each occurrence of its name on
  the resource's finalizer list, so exactly once when the name is there once. The
  actions were invoked in the order of the list, each with the resource as the actions
  before it left it, and each returned nil: the error and the resource that
  \<^verbatim>\<open>Finalize\<close> returns are those of \<open>finalize_each\<close>. No name whose action ran is on
  the resulting list, and the list was written back by exactly one \<^verbatim>\<open>SetFinalizers\<close>
  call, the last event.
\<close>

theorem Finalize_runs_each_registered_action_per_occurrence:
  assumes names: "distinct (map fst regs)"
    and run: "Finalize (RegisterAll regs) r = (None, r', tr)"
  shows "(\<forall>(n, f)\<in>set regs. map_of (RegisterAll regs) n = Some f
            \<and> count_list tr (Ran n) = count_list (GetFinalizers r) n)
    \<and> finalize_each (hands_out_stored_slice r) (RegisterAll regs) [] (GetFinalizers r) r = (None, r')
    \<and> tr = map Ran (filter (\<lambda>n. map_of (RegisterAll regs) n \<noteq> None) (GetFinalizers r))
             @ [SetFinalizersCall (GetFinalizers r')]
    \<and> (\<forall>n. Ran n \<in> set tr \<longrightarrow> n \<notin> set (GetFinalizers r'))
    \<and> length (filter is_SetFinalizersCall tr) = 1
    \<and> last tr = SetFinalizersCall (GetFinalizers r')"
proof -
  let ?fm = "RegisterAll regs"
  note res = Finalize_nil[OF run]
  have reg: "map_of ?fm n = Some f" if "(n, f) \<in> set regs" for n f
    using map_of_RegisterAll[OF names that] .
  have cnt: "count_list tr (Ran n) = count_list (GetFinalizers r) n" if "(n, f) \<in> set regs" for n f
    using reg[OF that] by (simp add: res(2) count_list_map_Ran count_list_filter)
  have 1: "\<forall>(n, f)\<in>set regs. map_of ?fm n = Some f
            \<and> count_list tr (Ran n) = count_list (GetFinalizers r) n"
    using reg cnt by blast
  have 2: "finalize_each (hands_out_stored_slice r) ?fm [] (GetFinalizers r) r = (None, r')"
    by (rule Finalize_each[OF run])
  have 3: "tr = map Ran (filter (\<lambda>n. map_of ?fm n \<noteq> None) (GetFinalizers r))
             @ [SetFinalizersCall (GetFinalizers r')]"
    by (simp add: res)
  have 4: "\<forall>n. Ran n \<in> set tr \<longrightarrow> n \<notin> set (GetFinalizers r')"
    by (auto simp: res)
  have 5: "length (filter is_SetFinalizersCall tr) = 1"
    by (simp add: res(2) filter_is_Set_map_Ran)
  have 6: "last tr = SetFinalizersCall (GetFinalizers r')"
    by (simp add: res)
  show ?thesis
    by (intro conjI) (rule 1 2 3 4 5 6)+
qed

theorem Finalize_runs_each_registered_action_per_occurrence_witness:
  "distinct (map fst [(''a'', note_run ''a''), (''b'', note_run ''b'')])
   \<and> Finalize (RegisterAll [(''a'', note_run ''a''), (''b'', note_run ''b'')]) ex_resource =
       (None, ex_noted, [Ran ''a'', Ran ''b'', SetFinalizersCall []])
   \<and> count_list [Ran ''a'', Ran ''b'', SetFinalizersCall []] (Ran ''a'') = 1
   \<and> count_list [Ran ''a'', Ran ''b'', SetFinalizersCall []] (Ran ''b'') = 1
   \<and> finalize_each (hands_out_stored_slice ex_resource)
        (RegisterAll [(''a'', note_run ''a''), (''b'', note_run ''b'')]) []
        (GetFinalizers ex_resource) ex_resource = (None, ex_noted)
   \<and> ''a'' \<notin> set (GetFinalizers ex_noted)
   \<and> length (filter is_SetFinalizersCall [Ran ''a'', Ran ''b'', SetFinalizersCall []]) = 1"
proof -
  have names: "distinct (map fst [(''a'', note_run ''a''), (''b'', note_run ''b'')])" by simp
  note inst = Finalize_runs_each_registered_action_per_occurrence[OF names ex_noted_run]
  have each: "finalize_each (hands_out_stored_slice ex_resource)
        (RegisterAll [(''a'', note_run ''a''), (''b'', note_run ''b'')]) []
        (GetFinalizers ex_resource) ex_resource = (None, ex_noted)"
    by (rule inst[THEN conjunct2, THEN conjunct1])
  have "\<forall>(n, f)\<in>set [(''a'', note_run ''a''), (''b'', note_run ''b'')].
      map_of (RegisterAll [(''a'', note_run ''a''), (''b'', note_run ''b'')]) n = Some f
      \<and> count_list [Ran ''a'', Ran ''b'', SetFinalizersCall []] (Ran n) =
          count_list (GetFinalizers ex_resource) n"
    by (rule inst[THEN conjunct1])
  then have cnt: "count_list [Ran ''a'', Ran ''b'', SetFinalizersCall []] (Ran ''a'') = 1"
    "count_list [Ran ''a'', Ran ''b'', SetFinalizersCall []] (Ran ''b'') = 1"
    by (simp_all add: ex_resource_names)
  have gone: "''a'' \<notin> set (GetFinalizers ex_noted)" by (simp add: ex_noted_def)
  show ?thesis using names ex_noted_run each cnt gone by simp
qed

text \<open>
  For a resource that hands out copies of its list, the four operations keep a list
  without duplicates free of them, on nil and on an error, when no registered action
  introduces a duplicate.
\<close>

lemma copies_keep_names_distinct:
  assumes copy: "\<not> hands_out_stored_slice r"
    and d: "distinct (GetFinalizers r)"
    and pres: "\<forall>n f x. map_of fm n = Some f \<longrightarrow> distinct (GetFinalizers x)
                 \<longrightarrow> distinct (GetFinalizers (snd (f x)))"
  shows "distinct (GetFinalizers (fst (snd (Finalize fm r))))
       \<and> distinct (GetFinalizers (fst (snd (FinalizeOne fm name r))))
       \<and> distinct (GetFinalizers (fst (snd (Reconcile fm r))))
       \<and> distinct (GetFinalizers (fst (snd (ReconcileOne name r))))"
proof -
  obtain e r' tr where run: "Finalize fm r = (e, r', tr)" by (cases "Finalize fm r")
  have 1: "distinct (GetFinalizers (fst (snd (Finalize fm r))))"
  proof (cases e)
    case None
    with run Finalize_nil(1)[of fm r r' tr] d show ?thesis by simp
  next
    case (Some err)
    with run Finalize_err(1)[of fm r err r' tr "\<lambda>x. distinct (GetFinalizers x)"] copy pres d
    show ?thesis by simp
  qed
  have 2: "distinct (GetFinalizers (fst (snd (FinalizeOne fm name r))))"
  proof (cases "map_of fm name")
    case None
    then show ?thesis using d by (simp add: FinalizeOne_def)
  next
    case (Some f)
    obtain e2 r2 where fr: "f r = (e2, r2)" by (cases "f r")
    have d2: "distinct (GetFinalizers r2)" using pres Some d fr by (metis snd_conv)
    show ?thesis
      using Some fr d2
      by (cases e2) (simp_all add: FinalizeOne_def FinalizeOne_loop_remove1 Let_def)
  qed
  have 3: "distinct (GetFinalizers (fst (snd (Reconcile fm r))))"
    using d by (simp add: Reconcile_eq)
  have 4: "distinct (GetFinalizers (fst (snd (ReconcileOne name r))))"
    using d by (simp add: ReconcileOne_def Let_def)
  show ?thesis using 1 2 3 4 by simp
qed

text \<open>
  C9. The claim: every operation of the manager leaves a finalizer list without
  duplicates free of them, also when it returns an error. What the code does on a
  resource that hands out its stored slice: with \<open>a\<close> and \<open>b\<close> on the list, the action
  of \<open>a\<close> succeeding and the action of \<open>b\<close> failing, \<^verbatim>\<open>Finalize\<close> removes \<open>a\<close> in
  place, runs into the error of \<open>b\<close> and returns it with no \<^verbatim>\<open>SetFinalizers\<close> call; the
  resource is left with \<open>b\<close> twice.
\<close>

theorem Finalize_error_leaves_duplicate_name:
  "hands_out_stored_slice ex_stored
   \<and> GetFinalizers ex_stored = [''a'', ''b'']
   \<and> distinct (GetFinalizers ex_stored)
   \<and> Finalize ex_failing ex_stored =
        (Some (OtherError ''boom''), StoredSliceObj [''b'', ''b''], [Ran ''a'', Ran ''b''])
   \<and> \<not> distinct (GetFinalizers (fst (snd (Finalize ex_failing ex_stored))))"
  by (simp add: ex_stored_def ex_failing_eq Finalize_def Finalize_loop.simps Let_def succeed_def
        fail_with_def)

text \<open>
  C10. When \<^verbatim>\<open>Finalize\<close> returns nil, the list on the resource is the original list
  without the names that have a registered action: the names with no registered action
  are all kept, in their order. It is the list of the last \<^verbatim>\<open>SetFinalizers\<close> call.
\<close>

theorem Finalize_nil_removes_registered_names:
  assumes "Finalize fm r = (None, r', tr)"
  shows "GetFinalizers r' = filter (\<lambda>n. map_of fm n = None) (GetFinalizers r)
       \<and> last tr = SetFinalizersCall (GetFinalizers r')"
  using Finalize_nil[OF assms] by simp

theorem Finalize_nil_removes_registered_names_witness:
  "Finalize ex_fixed ex_mixed =
     (None, StoredSliceObj [''x'', ''y''], [Ran ''a'', SetFinalizersCall [''x'', ''y'']])
   \<and> GetFinalizers (StoredSliceObj [''x'', ''y'']) =
       filter (\<lambda>n. map_of ex_fixed n = None) (GetFinalizers ex_mixed)
   \<and> last [Ran ''a'', SetFinalizersCall [''x'', ''y'']] =
       SetFinalizersCall (GetFinalizers (StoredSliceObj [''x'', ''y'']))"
  using Finalize_nil_removes_registered_names[OF ex_mixed_run] ex_mixed_run by simp

section \<open>The uninstall finalizer\<close>

lemma SetCondition_list_has:
  "\<exists>c\<in>set (SetCondition_list now condition cs).
      Type c = Type condition \<and> Status c = Status condition \<and> Reason c = Reason condition
      \<and> Message c = Message condition"
  by (induction cs) auto

lemma SetCondition_has:
  "\<exists>c\<in>set (Conditions (SetCondition now condition s)).
      Type c = Type condition \<and> Status c = Status condition \<and> Reason c = Reason condition
      \<and> Message c = Message condition"
  using SetCondition_list_has[of now condition "Conditions s"] by (simp add: SetCondition_def)

lemma has_condition_SetCondition:
  "has_condition (SetCondition now \<lparr>Type = t, Status = st, Reason = reason, Message = msg,
      LastTransitionTime = k\<rparr> s) t st reason msg"
  using SetCondition_has[of now "\<lparr>Type = t, Status = st, Reason = reason, Message = msg,
      LastTransitionTime = k\<rparr>" s]
  by (simp add: has_condition_def)

lemma uninstall_not_found:
  assumes "UninstallRelease r u = Some ReleaseErrNotFound"
  shows "uninstall r (UnstructuredObj u) =
    ((updateResourceStatus r u (RemoveCondition ConditionReleaseFailed (object_status u)),
      UnstructuredObj (u\<lparr>object_status := RemoveCondition ConditionReleaseFailed (object_status u)\<rparr>)),
     [RemoveCondition ConditionReleaseFailed (object_status u)])"
  using assms by (simp add: uninstall_def Let_def)

lemma uninstall_success:
  assumes "UninstallRelease r u = None"
  shows "\<exists>status. uninstall r (UnstructuredObj u) =
    ((updateResourceStatus r u status, UnstructuredObj (u\<lparr>object_status := status\<rparr>)), [status])
    \<and> has_condition status ConditionDeployed StatusFalse ReasonUninstallSuccessful []"
  using assms by (simp add: uninstall_def Let_def has_condition_SetCondition)

lemma uninstall_error:
  assumes "UninstallRelease r u = Some e" "e \<noteq> ReleaseErrNotFound"
  shows "\<exists>status. uninstall r (UnstructuredObj u) =
    ((Some e, UnstructuredObj (u\<lparr>object_status := status\<rparr>)), [status])
    \<and> has_condition status ConditionReleaseFailed StatusTrue ReasonUninstallError (Error e)"
  using assms by (simp add: uninstall_def Let_def has_condition_SetCondition)

lemma map_of_Add_FinalizerManager:
  "map_of (Add_FinalizerManager r) n =
     (if n = ''uninstall-helm-release'' then Some (NewUninstallFinalizer r) else None)"
  by (simp add: Add_FinalizerManager_def RegisterFinalizer_def NewManager_def)

text \<open>
  C4. The resource carries the name \<open>uninstall-helm-release\<close> once. When the uninstall
  path reports that the release is not found, the action clears the
  \<open>ReleaseFailed\<close> condition and returns what the status write returns, not the
  not-found error; when the status write succeeds, \<^verbatim>\<open>Finalize\<close> returns nil and drops
  the name. When the uninstall succeeds, the status gets the condition
  \<open>Deployed\<close> = \<open>False\<close> with the reason for a successful uninstall during the call of
  the action, before the \<^verbatim>\<open>SetFinalizers\<close> call that drops the name. On any other
  error of the uninstall path the status gets the condition \<open>ReleaseFailed\<close> =
  \<open>True\<close> with the message of the error, the action and \<^verbatim>\<open>Finalize\<close> return this
  error, and the finalizer list is unchanged.
\<close>

theorem uninstall_finalizer_outcomes:
  assumes l: "metadata_finalizers u = pre @ ''uninstall-helm-release'' # post"
    and once: "''uninstall-helm-release'' \<notin> set pre \<union> set post"
  shows
    "(UninstallRelease r u = Some ReleaseErrNotFound \<longrightarrow>
        (\<exists>status. status = RemoveCondition ConditionReleaseFailed (object_status u)
          \<and> uninstall r (UnstructuredObj u) =
            ((updateResourceStatus r u status, UnstructuredObj (u\<lparr>object_status := status\<rparr>)),
             [status])
          \<and> (updateResourceStatus r u status = None \<longrightarrow>
               Finalize (Add_FinalizerManager r) (UnstructuredObj u) =
                 (None,
                  UnstructuredObj (u\<lparr>object_status := status, metadata_finalizers := pre @ post\<rparr>),
                  [Ran ''uninstall-helm-release'', SetFinalizersCall (pre @ post)]))))
   \<and> (UninstallRelease r u = None \<longrightarrow>
        (\<exists>status. has_condition status ConditionDeployed StatusFalse ReasonUninstallSuccessful []
          \<and> uninstall r (UnstructuredObj u) =
            ((updateResourceStatus r u status, UnstructuredObj (u\<lparr>object_status := status\<rparr>)),
             [status])
          \<and> (updateResourceStatus r u status = None \<longrightarrow>
               Finalize (Add_FinalizerManager r) (UnstructuredObj u) =
                 (None,
                  UnstructuredObj (u\<lparr>object_status := status, metadata_finalizers := pre @ post\<rparr>),
                  [Ran ''uninstall-helm-release'', SetFinalizersCall (pre @ post)]))))
   \<and> (\<forall>e. UninstallRelease r u = Some e \<and> e \<noteq> ReleaseErrNotFound \<longrightarrow>
        (\<exists>status. has_condition status ConditionReleaseFailed StatusTrue ReasonUninstallError (Error e)
          \<and> uninstall r (UnstructuredObj u) =
            ((Some e, UnstructuredObj (u\<lparr>object_status := status\<rparr>)), [status])
          \<and> Finalize (Add_FinalizerManager r) (UnstructuredObj u) =
                 (Some e, UnstructuredObj (u\<lparr>object_status := status\<rparr>),
                  [Ran ''uninstall-helm-release''])))"
proof -
  let ?name = "''uninstall-helm-release''"
  let ?fm = "Add_FinalizerManager r"
  have gl: "GetFinalizers (UnstructuredObj u) = pre @ ?name # post" using l by simp
  have reg: "map_of ?fm ?name = Some (NewUninstallFinalizer r)"
    by (simp add: map_of_Add_FinalizerManager)
  have others: "\<forall>n\<in>set pre \<union> set post. map_of ?fm n = None"
    using once by (auto simp: map_of_Add_FinalizerManager)
  have copy: "\<not> hands_out_stored_slice (UnstructuredObj u)" by simp
  note single = Finalize_single[OF copy gl reg others]
  have A: "\<exists>status. status = RemoveCondition ConditionReleaseFailed (object_status u)
          \<and> uninstall r (UnstructuredObj u) =
            ((updateResourceStatus r u status, UnstructuredObj (u\<lparr>object_status := status\<rparr>)),
             [status])
          \<and> (updateResourceStatus r u status = None \<longrightarrow>
               Finalize ?fm (UnstructuredObj u) =
                 (None,
                  UnstructuredObj (u\<lparr>object_status := status, metadata_finalizers := pre @ post\<rparr>),
                  [Ran ?name, SetFinalizersCall (pre @ post)]))"
    if nf: "UninstallRelease r u = Some ReleaseErrNotFound"
    using uninstall_not_found[OF nf] single
    by (auto simp: NewUninstallFinalizer_def)
  have B: "\<exists>status. has_condition status ConditionDeployed StatusFalse ReasonUninstallSuccessful []
          \<and> uninstall r (UnstructuredObj u) =
            ((updateResourceStatus r u status, UnstructuredObj (u\<lparr>object_status := status\<rparr>)),
             [status])
          \<and> (updateResourceStatus r u status = None \<longrightarrow>
               Finalize ?fm (UnstructuredObj u) =
                 (None,
                  UnstructuredObj (u\<lparr>object_status := status, metadata_finalizers := pre @ post\<rparr>),
                  [Ran ?name, SetFinalizersCall (pre @ post)]))"
    if ok: "UninstallRelease r u = None"
  proof -
    from uninstall_success[OF ok] obtain status where
      st: "uninstall r (UnstructuredObj u) =
        ((updateResourceStatus r u status, UnstructuredObj (u\<lparr>object_status := status\<rparr>)), [status])"
        "has_condition status ConditionDeployed StatusFalse ReasonUninstallSuccessful []"
      by blast
    show ?thesis
      using st single by (auto simp: NewUninstallFinalizer_def)
  qed
  have C: "\<exists>status. has_condition status ConditionReleaseFailed StatusTrue ReasonUninstallError (Error e)
          \<and> uninstall r (UnstructuredObj u) =
            ((Some e, UnstructuredObj (u\<lparr>object_status := status\<rparr>)), [status])
          \<and> Finalize ?fm (UnstructuredObj u) =
                 (Some e, UnstructuredObj (u\<lparr>object_status := status\<rparr>), [Ran ?name])"
    if err: "UninstallRelease r u = Some e" "e \<noteq> ReleaseErrNotFound" for e
  proof -
    from uninstall_error[OF err] obtain status where
      st: "uninstall r (UnstructuredObj u) =
        ((Some e, UnstructuredObj (u\<lparr>object_status := status\<rparr>)), [status])"
        "has_condition status ConditionReleaseFailed StatusTrue ReasonUninstallError (Error e)"
      by blast
    show ?thesis
      using st single by (auto simp: NewUninstallFinalizer_def)
  qed
  show ?thesis using A B C by blast
qed

theorem uninstall_finalizer_outcomes_witness:
  "metadata_finalizers ex_cr = [] @ ''uninstall-helm-release'' # []
   \<and> UninstallRelease (ex_reconciler (Some ReleaseErrNotFound)) ex_cr = Some ReleaseErrNotFound
   \<and> fst (Finalize (Add_FinalizerManager (ex_reconciler (Some ReleaseErrNotFound)))
           (UnstructuredObj ex_cr)) = None
   \<and> GetFinalizers (fst (snd (Finalize (Add_FinalizerManager (ex_reconciler (Some ReleaseErrNotFound)))
           (UnstructuredObj ex_cr)))) = []
   \<and> UninstallRelease (ex_reconciler None) ex_cr = None
   \<and> fst (Finalize (Add_FinalizerManager (ex_reconciler None)) (UnstructuredObj ex_cr)) = None
   \<and> GetFinalizers (fst (snd (Finalize (Add_FinalizerManager (ex_reconciler None))
           (UnstructuredObj ex_cr)))) = []
   \<and> UninstallRelease (ex_reconciler (Some (OtherError ''timeout''))) ex_cr
         = Some (OtherError ''timeout'')
   \<and> fst (Finalize (Add_FinalizerManager (ex_reconciler (Some (OtherError ''timeout''))))
           (UnstructuredObj ex_cr)) = Some (OtherError ''timeout'')
   \<and> GetFinalizers (fst (snd (Finalize (Add_FinalizerManager
           (ex_reconciler (Some (OtherError ''timeout'')))) (UnstructuredObj ex_cr))))
         = [''uninstall-helm-release'']"
proof -
  have l: "metadata_finalizers ex_cr = [] @ ''uninstall-helm-release'' # []"
    by (simp add: ex_cr_def)
  have once: "''uninstall-helm-release'' \<notin> set [] \<union> set []" by simp
  have upd: "updateResourceStatus (ex_reconciler outcome) ex_cr status = None" for outcome status
    by (simp add: ex_reconciler_def)
  have out: "UninstallRelease (ex_reconciler outcome) ex_cr = outcome" for outcome
    by (simp add: ex_reconciler_def)
  note inst = uninstall_finalizer_outcomes[OF l once]
  from inst[of "ex_reconciler (Some ReleaseErrNotFound)"] out upd
  have A: "fst (Finalize (Add_FinalizerManager (ex_reconciler (Some ReleaseErrNotFound)))
           (UnstructuredObj ex_cr)) = None"
    "GetFinalizers (fst (snd (Finalize (Add_FinalizerManager (ex_reconciler (Some ReleaseErrNotFound)))
           (UnstructuredObj ex_cr)))) = []"
    by auto
  from inst[of "ex_reconciler None"] out upd
  have B: "fst (Finalize (Add_FinalizerManager (ex_reconciler None)) (UnstructuredObj ex_cr)) = None"
    "GetFinalizers (fst (snd (Finalize (Add_FinalizerManager (ex_reconciler None))
           (UnstructuredObj ex_cr)))) = []"
    by auto
  from inst[of "ex_reconciler (Some (OtherError ''timeout''))"] out
  have C: "fst (Finalize (Add_FinalizerManager (ex_reconciler (Some (OtherError ''timeout''))))
           (UnstructuredObj ex_cr)) = Some (OtherError ''timeout'')"
    "GetFinalizers (fst (snd (Finalize (Add_FinalizerManager
           (ex_reconciler (Some (OtherError ''timeout'')))) (UnstructuredObj ex_cr))))
         = [''uninstall-helm-release'']"
    by (auto simp: ex_cr_def)
  show ?thesis using l out A B C by simp
qed

section \<open>The predicate on dependent resource events\<close>

lemma SetResourceVersion_twice:
  "SetResourceVersion v (SetResourceVersion w obj) = SetResourceVersion v obj"
  by (auto simp: SetResourceVersion_def split: option.splits jvalue.splits)

lemma SetResourceVersion_status:
  "SetResourceVersion v (obj(''status'' := s)) = (SetResourceVersion v obj)(''status'' := s)"
  by (auto simp: SetResourceVersion_def fun_upd_twist split: option.splits jvalue.splits)

lemma SetResourceVersion_other_key:
  "k \<noteq> ''metadata'' \<Longrightarrow> SetResourceVersion v obj k = obj k"
  by (auto simp: SetResourceVersion_def split: option.splits jvalue.splits)

lemma UpdateFunc_iff:
  "UpdateFunc (UpdateEvent old new) = False \<longleftrightarrow>
     SetResourceVersion [] (old(''status'' := None)) = SetResourceVersion [] (new(''status'' := None))"
  by (simp add: Let_def)

lemma SetResourceVersion_metadata_key:
  "obj ''metadata'' = Some (JMap md) \<Longrightarrow>
   SetResourceVersion v obj ''metadata'' = Some (JMap (md(''resourceVersion'' \<mapsto> JString v)))"
  by (simp add: SetResourceVersion_def)

text \<open>
  C5. \<^verbatim>\<open>UpdateFunc\<close> returns false iff the old and the new object are equal once the
  \<open>status\<close> field is deleted and the resource version is cleared on both sides. So an
  update that changes the status, the resource version or both is filtered out, and an
  update in which another top-level field differs, or another field of the metadata,
  passes. \<^verbatim>\<open>CreateFunc\<close> returns false and \<^verbatim>\<open>DeleteFunc\<close> returns true for every
  event.
\<close>

theorem dependentPredicate_filters_status_and_resourceVersion:
  "(UpdateFunc (UpdateEvent old new) = False \<longleftrightarrow>
      SetResourceVersion [] (old(''status'' := None)) = SetResourceVersion [] (new(''status'' := None)))
   \<and> UpdateFunc (UpdateEvent old (SetResourceVersion v (old(''status'' := s)))) = False
   \<and> UpdateFunc (UpdateEvent old (old(''status'' := s))) = False
   \<and> UpdateFunc (UpdateEvent old (SetResourceVersion v old)) = False
   \<and> (\<forall>k. k \<noteq> ''status'' \<and> k \<noteq> ''metadata'' \<and> old k \<noteq> new k \<longrightarrow>
         UpdateFunc (UpdateEvent old new) = True)
   \<and> (\<forall>k mo mn. old ''metadata'' = Some (JMap mo) \<and> new ''metadata'' = Some (JMap mn)
         \<and> k \<noteq> ''resourceVersion'' \<and> mo k \<noteq> mn k \<longrightarrow>
         UpdateFunc (UpdateEvent old new) = True)
   \<and> CreateFunc (CreateEvent obj) = False
   \<and> DeleteFunc (DeleteEvent obj) = True"
proof -
  have 1: "UpdateFunc (UpdateEvent old (SetResourceVersion v (old(''status'' := s)))) = False"
    by (simp add: Let_def SetResourceVersion_twice SetResourceVersion_status)
  have 2: "UpdateFunc (UpdateEvent old (old(''status'' := s))) = False"
    by (simp add: Let_def)
  have 3: "UpdateFunc (UpdateEvent old (SetResourceVersion v old)) = False"
    by (simp add: Let_def SetResourceVersion_twice SetResourceVersion_status)
  have 4: "UpdateFunc (UpdateEvent old new) = True"
    if k: "k \<noteq> ''status''" "k \<noteq> ''metadata''" "old k \<noteq> new k" for k
  proof -
    have "SetResourceVersion [] (old(''status'' := None)) k \<noteq>
          SetResourceVersion [] (new(''status'' := None)) k"
      using k by (simp add: SetResourceVersion_other_key)
    then have "SetResourceVersion [] (old(''status'' := None)) \<noteq>
          SetResourceVersion [] (new(''status'' := None))"
      by metis
    then show ?thesis by (simp add: Let_def)
  qed
  have 5: "UpdateFunc (UpdateEvent old new) = True"
    if m: "old ''metadata'' = Some (JMap mo)" "new ''metadata'' = Some (JMap mn)"
      "k \<noteq> ''resourceVersion''" "mo k \<noteq> mn k" for k mo mn
  proof -
    have o: "SetResourceVersion [] (old(''status'' := None)) ''metadata'' =
          Some (JMap (mo(''resourceVersion'' \<mapsto> JString [])))"
      using m(1) by (simp add: SetResourceVersion_metadata_key)
    have n: "SetResourceVersion [] (new(''status'' := None)) ''metadata'' =
          Some (JMap (mn(''resourceVersion'' \<mapsto> JString [])))"
      using m(2) by (simp add: SetResourceVersion_metadata_key)
    have "(mo(''resourceVersion'' \<mapsto> JString [])) k \<noteq> (mn(''resourceVersion'' \<mapsto> JString [])) k"
      using m(3,4) by simp
    then have "mo(''resourceVersion'' \<mapsto> JString []) \<noteq> mn(''resourceVersion'' \<mapsto> JString [])"
      by metis
    with o n have "SetResourceVersion [] (old(''status'' := None)) \<noteq>
          SetResourceVersion [] (new(''status'' := None))"
      by (metis jvalue.inject(5) option.inject)
    then show ?thesis by (simp add: Let_def)
  qed
  have 6: "CreateFunc (CreateEvent obj) = False" by simp
  have 7: "DeleteFunc (DeleteEvent obj) = True" by simp
  have k4: "\<forall>k. k \<noteq> ''status'' \<and> k \<noteq> ''metadata'' \<and> old k \<noteq> new k \<longrightarrow>
         UpdateFunc (UpdateEvent old new) = True"
    using 4 by blast
  have k5: "\<forall>k mo mn. old ''metadata'' = Some (JMap mo) \<and> new ''metadata'' = Some (JMap mn)
         \<and> k \<noteq> ''resourceVersion'' \<and> mo k \<noteq> mn k \<longrightarrow>
         UpdateFunc (UpdateEvent old new) = True"
    using 5 by blast
  show ?thesis
    by (intro conjI) (rule UpdateFunc_iff 1 2 3 k4 k5 6 7)+
qed

theorem dependentPredicate_filters_status_and_resourceVersion_witness:
  "UpdateFunc (UpdateEvent ex_old ex_status_changed) = False
   \<and> ex_old ''status'' \<noteq> ex_status_changed ''status''
   \<and> ex_old ''metadata'' \<noteq> ex_status_changed ''metadata''
   \<and> ''spec'' \<noteq> ''status'' \<and> ''spec'' \<noteq> ''metadata''
   \<and> ex_old ''spec'' \<noteq> ex_spec_changed ''spec''
   \<and> UpdateFunc (UpdateEvent ex_old ex_spec_changed) = True"
proof -
  have m: "[''replicas'' \<mapsto> JInt 1] \<noteq> [''replicas'' \<mapsto> JInt 2]"
    by (auto dest: map_upd_eqD1)
  have d: "''spec'' \<noteq> ''status''" "''spec'' \<noteq> ''metadata''"
      "ex_old ''spec'' \<noteq> ex_spec_changed ''spec''"
    using m by (simp_all add: ex_old_def ex_spec_changed_def)
  have s: "[''readyReplicas'' \<mapsto> JInt 0] \<noteq> [''readyReplicas'' \<mapsto> JInt 1]"
    by (auto dest: map_upd_eqD1)
  have s1: "ex_old ''status'' \<noteq> ex_status_changed ''status''"
    using s by (simp add: ex_old_def ex_status_changed_def SetResourceVersion_def)
  have r: "[''name'' \<mapsto> JString ''web'', ''resourceVersion'' \<mapsto> JString ''1'']
         \<noteq> [''name'' \<mapsto> JString ''web'', ''resourceVersion'' \<mapsto> JString ''2'']"
    by (auto dest: map_upd_eqD1)
  have s2: "ex_old ''metadata'' \<noteq> ex_status_changed ''metadata''"
    using r by (simp add: ex_old_def ex_status_changed_def SetResourceVersion_def)
  note inst = dependentPredicate_filters_status_and_resourceVersion
  have a: "UpdateFunc (UpdateEvent ex_old ex_status_changed) = False"
    unfolding ex_status_changed_def by (rule inst[THEN conjunct2, THEN conjunct1])
  have "\<forall>k. k \<noteq> ''status'' \<and> k \<noteq> ''metadata'' \<and> ex_old k \<noteq> ex_spec_changed k \<longrightarrow>
         UpdateFunc (UpdateEvent ex_old ex_spec_changed) = True"
    by (rule inst[THEN conjunct2, THEN conjunct2, THEN conjunct2, THEN conjunct2, THEN conjunct1])
  then have "''spec'' \<noteq> ''status'' \<and> ''spec'' \<noteq> ''metadata'' \<and> ex_old ''spec'' \<noteq> ex_spec_changed ''spec''
      \<longrightarrow> UpdateFunc (UpdateEvent ex_old ex_spec_changed) = True"
    by (rule spec)
  then have b: "UpdateFunc (UpdateEvent ex_old ex_spec_changed) = True"
    using d by (simp del: UpdateFunc.simps)
  show ?thesis using a b d s1 s2 by (simp del: UpdateFunc.simps)
qed

section \<open>The release hook\<close>

lemma with_calls_proj [simp]:
  "fst (with_calls cs x) = fst x"
  "fst (snd (with_calls cs x)) = fst (snd x)"
  "snd (snd (with_calls cs x)) = cs @ snd (snd x)"
  by (cases x; simp)+

text \<open>
  A pass never removes a kind from the set; it calls \<^verbatim>\<open>c.Watch\<close> and the REST mapper
  only for kinds that are not in the set (the mapper also for the owner), and
  \<^verbatim>\<open>c.Watch\<close> at most once for a kind.
\<close>

lemma hook_mono: "w \<subseteq> fst (snd (releaseHook_loop env docs w))"
proof (induction docs arbitrary: w)
  case Nil
  show ?case by simp
next
  case (Cons d docs)
  show ?case
  proof (cases d)
    case (Inl err)
    then show ?thesis by simp
  next
    case (Inr gvk)
    show ?thesis
      using Cons.IH[of w] Cons.IH[of "insert gvk w"]
      by (auto simp: Inr Let_def split: sum.splits option.splits)
  qed
qed

lemma hook_watch_new:
  "WatchCall g \<in> set (snd (snd (releaseHook_loop env docs w))) \<Longrightarrow> g \<notin> w"
proof (induction docs arbitrary: w)
  case Nil
  then show ?case by simp
next
  case (Cons d docs)
  show ?case
  proof (cases d)
    case (Inl err)
    with Cons.prems show ?thesis by simp
  next
    case (Inr gvk)
    show ?thesis
      using Cons.prems Cons.IH[of w] Cons.IH[of "insert gvk w"]
      by (auto simp: Inr Let_def split: sum.splits option.splits if_splits)
  qed
qed

lemma hook_lookup_new:
  "RESTMappingCall g \<in> set (snd (snd (releaseHook_loop env docs w))) \<Longrightarrow>
   g \<notin> w \<or> g = owner env"
proof (induction docs arbitrary: w)
  case Nil
  then show ?case by simp
next
  case (Cons d docs)
  show ?case
  proof (cases d)
    case (Inl err)
    with Cons.prems show ?thesis by simp
  next
    case (Inr gvk)
    show ?thesis
      using Cons.prems Cons.IH[of w] Cons.IH[of "insert gvk w"]
      by (auto simp: Inr Let_def split: sum.splits option.splits if_splits)
  qed
qed

lemma hook_watch_once:
  "count_list (snd (snd (releaseHook_loop env docs w))) (WatchCall g) \<le> 1"
proof (induction docs arbitrary: w)
  case Nil
  show ?case by simp
next
  case (Cons d docs)
  show ?case
  proof (cases d)
    case (Inl err)
    then show ?thesis by simp
  next
    case (Inr gvk)
    have no: "count_list (snd (snd (releaseHook_loop env docs (insert gvk w)))) (WatchCall gvk) = 0"
      using hook_watch_new[of gvk env docs "insert gvk w"] by (auto simp add: count_list_0_iff)
    show ?thesis
      using Cons.IH[of w] Cons.IH[of "insert gvk w"] no
      by (auto simp: Inr Let_def split: sum.splits option.splits)
  qed
qed

lemma hook_watch_success_seen:
  "WatchCall g \<in> set (snd (snd (releaseHook_loop env docs w))) \<Longrightarrow> Watch env g = None \<Longrightarrow>
   g \<in> fst (snd (releaseHook_loop env docs w))"
proof (induction docs arbitrary: w)
  case Nil
  then show ?case by simp
next
  case (Cons d docs)
  show ?case
  proof (cases d)
    case (Inl err)
    with Cons.prems show ?thesis by simp
  next
    case (Inr gvk)
    have m: "insert gvk w \<subseteq> fst (snd (releaseHook_loop env docs (insert gvk w)))"
      by (rule hook_mono)
    show ?thesis
      using Cons.prems Cons.IH[of w] Cons.IH[of "insert gvk w"] m
      by (auto simp: Inr Let_def split: sum.splits option.splits if_splits)
  qed
qed

text \<open>
  A pass over documents whose kinds are all in the set does nothing; a pass that returns
  nil has put the kind of every document into the set, and nothing else.
\<close>

lemma hook_seen_noop:
  "\<forall>d\<in>set docs. \<exists>g. d = Inr g \<and> g \<in> w \<Longrightarrow> releaseHook_loop env docs w = (None, w, [])"
  by (induction docs) auto

lemma hook_seen_prefix:
  "\<forall>d\<in>set pre. \<exists>g. d = Inr g \<and> g \<in> w \<Longrightarrow>
   releaseHook_loop env (pre @ rest) w = releaseHook_loop env rest w"
  by (induction pre) auto

lemma hook_nil_all_seen:
  "fst (releaseHook_loop env docs w) = None \<Longrightarrow>
   \<forall>d\<in>set docs. \<exists>g. d = Inr g \<and> g \<in> fst (snd (releaseHook_loop env docs w))"
proof (induction docs arbitrary: w)
  case Nil
  show ?case by simp
next
  case (Cons d docs)
  show ?case
  proof (cases d)
    case (Inl err)
    with Cons.prems show ?thesis by simp
  next
    case (Inr gvk)
    have m: "insert gvk w \<subseteq> fst (snd (releaseHook_loop env docs (insert gvk w)))"
      by (rule hook_mono)
    show ?thesis
      using Cons.prems Cons.IH[of w] Cons.IH[of "insert gvk w"] m hook_mono[of w env docs]
      by (auto simp: Inr Let_def split: sum.splits option.splits if_splits)
  qed
qed

lemma hook_nil_watches:
  "fst (releaseHook_loop env docs w) = None \<Longrightarrow>
   fst (snd (releaseHook_loop env docs w)) = w \<union> {g. Inr g \<in> set docs}"
proof (induction docs arbitrary: w)
  case Nil
  show ?case by simp
next
  case (Cons d docs)
  show ?case
  proof (cases d)
    case (Inl err)
    with Cons.prems show ?thesis by simp
  next
    case (Inr gvk)
    show ?thesis
      using Cons.prems Cons.IH[of w] Cons.IH[of "insert gvk w"]
      by (auto simp: Inr Let_def split: sum.splits option.splits if_splits)
  qed
qed

lemma hook_append:
  "releaseHook_loop env pre w = (None, w1, c1) \<Longrightarrow>
   releaseHook_loop env (pre @ rest) w = with_calls c1 (releaseHook_loop env rest w1)"
proof (induction pre arbitrary: w c1)
  case Nil
  then show ?case by (cases "releaseHook_loop env rest w1") auto
next
  case (Cons d pre)
  show ?case
  proof (cases d)
    case (Inl err)
    with Cons.prems show ?thesis by simp
  next
    case (Inr gvk)
    obtain e2 w2 c2 where r2: "releaseHook_loop env pre (insert gvk w) = (e2, w2, c2)"
      by (cases "releaseHook_loop env pre (insert gvk w)")
    obtain e3 w3 c3 where r3: "releaseHook_loop env rest w1 = (e3, w3, c3)"
      by (cases "releaseHook_loop env rest w1")
    show ?thesis
      using Cons.prems Cons.IH[of w c1] Cons.IH[of "insert gvk w" c2] r2 r3
      by (auto simp: Inr Let_def split: sum.splits option.splits if_splits)
  qed
qed

text \<open>
A cluster-scoped dependent kind of a namespace-scoped owner.
\<close>

lemma hook_scope_no_watch:
  assumes "RESTMapping env g = Inr RESTScopeNameRoot"
    and "RESTMapping env (owner env) = Inr RESTScopeNameNamespace"
  shows "WatchCall g \<notin> set (snd (snd (releaseHook_loop env docs w)))"
proof (induction docs arbitrary: w)
  case Nil
  show ?case by simp
next
  case (Cons d docs)
  show ?case
  proof (cases d)
    case (Inl err)
    then show ?thesis by simp
  next
    case (Inr gvk)
    show ?thesis
      using assms Cons.IH[of w] Cons.IH[of "insert gvk w"]
      by (auto simp: Inr Let_def split: sum.splits option.splits if_splits)
  qed
qed

lemma hook_scope_lookup_seen:
  assumes "RESTMapping env g = Inr RESTScopeNameRoot"
    and "RESTMapping env (owner env) = Inr RESTScopeNameNamespace"
  shows "RESTMappingCall g \<in> set (snd (snd (releaseHook_loop env docs w))) \<Longrightarrow>
    g \<in> fst (snd (releaseHook_loop env docs w))"
proof (induction docs arbitrary: w)
  case Nil
  then show ?case by simp
next
  case (Cons d docs)
  show ?case
  proof (cases d)
    case (Inl err)
    with Cons.prems show ?thesis by simp
  next
    case (Inr gvk)
    have m: "insert gvk w \<subseteq> fst (snd (releaseHook_loop env docs (insert gvk w)))"
      by (rule hook_mono)
    show ?thesis
      using assms Cons.prems Cons.IH[of w] Cons.IH[of "insert gvk w"] m
      by (auto simp: Inr Let_def split: sum.splits option.splits if_splits)
  qed
qed

text \<open>
The examples, evaluated.
\<close>

lemma ex_env_simps:
  "Decode (ex_env docs) manifest = docs"
  "RESTMapping (ex_env docs) ex_deployment = Inr RESTScopeNameNamespace"
  "RESTMapping (ex_env docs) ex_service = Inr RESTScopeNameNamespace"
  "RESTMapping (ex_env docs) ex_clusterrole = Inr RESTScopeNameRoot"
  "RESTMapping (ex_env docs) ex_owner = Inr RESTScopeNameNamespace"
  "Watch (ex_env docs) gvk = None"
  "owner (ex_env docs) = ex_owner"
  by (simp_all add: ex_env_def ex_deployment_def ex_service_def ex_clusterrole_def ex_owner_def)

lemma ex_kinds_distinct:
  "ex_deployment \<noteq> ex_clusterrole" "ex_clusterrole \<noteq> ex_deployment"
  "ex_deployment \<noteq> ex_service" "ex_service \<noteq> ex_deployment"
  by (simp_all add: ex_deployment_def ex_service_def ex_clusterrole_def)

lemma ex_first_pass:
  "releaseHook (ex_env [Inr ex_deployment, Inr ex_clusterrole]) ''manifest'' {} =
     (None, {ex_clusterrole, ex_deployment},
      [RESTMappingCall ex_deployment, RESTMappingCall ex_owner, WatchCall ex_deployment,
       RESTMappingCall ex_clusterrole, RESTMappingCall ex_owner])"
  by (simp add: releaseHook_def ex_env_simps ex_kinds_distinct)

lemma ex_second_pass:
  "releaseHook (ex_env [Inr ex_deployment, Inr ex_clusterrole]) ''manifest''
     {ex_clusterrole, ex_deployment} = (None, {ex_clusterrole, ex_deployment}, [])"
  by (simp add: releaseHook_def ex_env_simps)

lemma ex_services_first_pass:
  "releaseHook (ex_env [Inr ex_deployment, Inr ex_service, Inr ex_deployment]) ''manifest'' {} =
     (None, {ex_service, ex_deployment},
      [RESTMappingCall ex_deployment, RESTMappingCall ex_owner, WatchCall ex_deployment,
       RESTMappingCall ex_service, RESTMappingCall ex_owner, WatchCall ex_service])"
  by (simp add: releaseHook_def ex_env_simps ex_kinds_distinct)

lemma ex_prefix_pass:
  "releaseHook_loop (ex_env [Inr ex_deployment, Inl (OtherError ''yaml: line 7''), Inr ex_service])
     [Inr ex_deployment] {} =
     (None, {ex_deployment},
      [RESTMappingCall ex_deployment, RESTMappingCall ex_owner, WatchCall ex_deployment])"
  by (simp add: ex_env_simps)

text \<open>
  C6. The dependent kind resolves as cluster-scoped and the owner kind as
  namespace-scoped. Then no pass calls \<^verbatim>\<open>c.Watch\<close> for the kind; a pass that looks the
  kind up puts it into the set of seen kinds, and so does every pass that returns nil
  on a manifest with a document of the kind; and once the kind is in the set, a second
  pass over the manifest makes no REST mapper lookup and no \<^verbatim>\<open>c.Watch\<close> call for it.
\<close>

theorem releaseHook_skips_cluster_scoped_dependent:
  assumes dep: "RESTMapping env gvk = Inr RESTScopeNameRoot"
    and own: "RESTMapping env (owner env) = Inr RESTScopeNameNamespace"
    and run: "releaseHook env manifest watches = (e, watches', calls)"
  shows "WatchCall gvk \<notin> set calls
    \<and> (RESTMappingCall gvk \<in> set calls \<longrightarrow> gvk \<in> watches')
    \<and> (e = None \<and> Inr gvk \<in> set (Decode env manifest) \<longrightarrow> gvk \<in> watches')
    \<and> (gvk \<in> watches' \<longrightarrow>
         (\<forall>e2 w2 calls2. releaseHook env manifest watches' = (e2, w2, calls2) \<longrightarrow>
            RESTMappingCall gvk \<notin> set calls2 \<and> WatchCall gvk \<notin> set calls2 \<and> gvk \<in> w2))"
proof -
  let ?docs = "Decode env manifest"
  have run': "releaseHook_loop env ?docs watches = (e, watches', calls)"
    using run by (simp add: releaseHook_def)
  have neq: "gvk \<noteq> owner env" using dep own by auto
  have 1: "WatchCall gvk \<notin> set calls"
    using hook_scope_no_watch[OF dep own, of ?docs watches] run' by simp
  have 2: "gvk \<in> watches'" if "RESTMappingCall gvk \<in> set calls"
    using hook_scope_lookup_seen[OF dep own, of ?docs watches] run' that by simp
  have 3: "gvk \<in> watches'" if "e = None" "Inr gvk \<in> set ?docs"
    using hook_nil_watches[of env ?docs watches] run' that by simp
  have 4: "RESTMappingCall gvk \<notin> set calls2 \<and> WatchCall gvk \<notin> set calls2 \<and> gvk \<in> w2"
    if seen: "gvk \<in> watches'" and again: "releaseHook env manifest watches' = (e2, w2, calls2)"
    for e2 w2 calls2
  proof -
    have again': "releaseHook_loop env ?docs watches' = (e2, w2, calls2)"
      using again by (simp add: releaseHook_def)
    have a: "RESTMappingCall gvk \<notin> set calls2"
      using hook_lookup_new[of gvk env ?docs watches'] again' seen neq by auto
    have b: "WatchCall gvk \<notin> set calls2"
      using hook_watch_new[of gvk env ?docs watches'] again' seen by auto
    have c: "gvk \<in> w2"
      using hook_mono[of watches' env ?docs] again' seen by auto
    show ?thesis using a b c by simp
  qed
  show ?thesis using 1 2 3 4 by blast
qed

theorem releaseHook_skips_cluster_scoped_dependent_witness:
  "RESTMapping (ex_env [Inr ex_deployment, Inr ex_clusterrole]) ex_clusterrole = Inr RESTScopeNameRoot
   \<and> RESTMapping (ex_env [Inr ex_deployment, Inr ex_clusterrole])
        (owner (ex_env [Inr ex_deployment, Inr ex_clusterrole])) = Inr RESTScopeNameNamespace
   \<and> releaseHook (ex_env [Inr ex_deployment, Inr ex_clusterrole]) ''manifest'' {} =
       (None, {ex_clusterrole, ex_deployment},
        [RESTMappingCall ex_deployment, RESTMappingCall ex_owner, WatchCall ex_deployment,
         RESTMappingCall ex_clusterrole, RESTMappingCall ex_owner])
   \<and> WatchCall ex_clusterrole \<notin> set
        [RESTMappingCall ex_deployment, RESTMappingCall ex_owner, WatchCall ex_deployment,
         RESTMappingCall ex_clusterrole, RESTMappingCall ex_owner]
   \<and> ex_clusterrole \<in> {ex_clusterrole, ex_deployment}
   \<and> releaseHook (ex_env [Inr ex_deployment, Inr ex_clusterrole]) ''manifest''
        {ex_clusterrole, ex_deployment} = (None, {ex_clusterrole, ex_deployment}, [])
   \<and> RESTMappingCall ex_clusterrole \<notin> set []"
proof -
  let ?env = "ex_env [Inr ex_deployment, Inr ex_clusterrole]"
  have dep: "RESTMapping ?env ex_clusterrole = Inr RESTScopeNameRoot"
    by (simp add: ex_env_simps)
  have own: "RESTMapping ?env (owner ?env) = Inr RESTScopeNameNamespace"
    by (simp add: ex_env_simps)
  note inst = releaseHook_skips_cluster_scoped_dependent[OF dep own ex_first_pass]
  have a: "WatchCall ex_clusterrole \<notin> set
        [RESTMappingCall ex_deployment, RESTMappingCall ex_owner, WatchCall ex_deployment,
         RESTMappingCall ex_clusterrole, RESTMappingCall ex_owner]"
    by (rule inst[THEN conjunct1])
  have b: "ex_clusterrole \<in> {ex_clusterrole, ex_deployment}"
    using inst[THEN conjunct2, THEN conjunct1] by simp
  have "\<forall>e2 w2 calls2. releaseHook ?env ''manifest'' {ex_clusterrole, ex_deployment} = (e2, w2, calls2) \<longrightarrow>
            RESTMappingCall ex_clusterrole \<notin> set calls2 \<and> WatchCall ex_clusterrole \<notin> set calls2
            \<and> ex_clusterrole \<in> w2"
    using inst[THEN conjunct2, THEN conjunct2, THEN conjunct2] b by (rule mp)
  then have c: "RESTMappingCall ex_clusterrole \<notin> set []"
    using ex_second_pass by blast
  show ?thesis using dep own ex_first_pass ex_second_pass a b c by simp
qed

text \<open>
  C7. A pass never removes a kind from the set of seen kinds; it calls \<^verbatim>\<open>c.Watch\<close>
  only for kinds that were not in the set, at most once for a kind, and a kind whose
  \<^verbatim>\<open>c.Watch\<close> call succeeded is in the set afterwards. A later pass, over any
  manifest, makes no \<^verbatim>\<open>c.Watch\<close> call for a kind in the set; and after a pass that
  returned nil, a second pass over the same manifest makes no call at all.
\<close>

theorem releaseHook_watches_each_kind_once:
  assumes run: "releaseHook env manifest watches = (e, watches', calls)"
  shows "watches \<subseteq> watches'
    \<and> (\<forall>g. WatchCall g \<in> set calls \<longrightarrow> g \<notin> watches)
    \<and> (\<forall>g. count_list calls (WatchCall g) \<le> 1)
    \<and> (\<forall>g. WatchCall g \<in> set calls \<and> Watch env g = None \<longrightarrow> g \<in> watches')
    \<and> (\<forall>env2 manifest2 e2 w2 calls2.
          releaseHook env2 manifest2 watches' = (e2, w2, calls2) \<longrightarrow>
            watches' \<subseteq> w2 \<and> (\<forall>g\<in>watches'. WatchCall g \<notin> set calls2))
    \<and> (e = None \<longrightarrow> releaseHook env manifest watches' = (None, watches', []))"
proof -
  let ?docs = "Decode env manifest"
  have run': "releaseHook_loop env ?docs watches = (e, watches', calls)"
    using run by (simp add: releaseHook_def)
  have 1: "watches \<subseteq> watches'"
    using hook_mono[of watches env ?docs] run' by simp
  have 2: "g \<notin> watches" if "WatchCall g \<in> set calls" for g
    using hook_watch_new[of g env ?docs watches] run' that by simp
  have 3: "count_list calls (WatchCall g) \<le> 1" for g
    using hook_watch_once[of env ?docs watches g] run' by simp
  have 4: "g \<in> watches'" if "WatchCall g \<in> set calls" "Watch env g = None" for g
    using hook_watch_success_seen[of g env ?docs watches] run' that by simp
  have 5: "watches' \<subseteq> w2 \<and> (\<forall>g\<in>watches'. WatchCall g \<notin> set calls2)"
    if again: "releaseHook env2 manifest2 watches' = (e2, w2, calls2)"
    for env2 manifest2 e2 w2 calls2
  proof -
    have again': "releaseHook_loop env2 (Decode env2 manifest2) watches' = (e2, w2, calls2)"
      using again by (simp add: releaseHook_def)
    have a: "watches' \<subseteq> w2"
      using hook_mono[of watches' env2 "Decode env2 manifest2"] again' by simp
    have b: "WatchCall g \<notin> set calls2" if "g \<in> watches'" for g
      using hook_watch_new[of g env2 "Decode env2 manifest2" watches'] again' that by auto
    show ?thesis using a b by simp
  qed
  have 6: "releaseHook env manifest watches' = (None, watches', [])" if "e = None"
  proof -
    have "\<forall>d\<in>set ?docs. \<exists>g. d = Inr g \<and> g \<in> watches'"
      using hook_nil_all_seen[of env ?docs watches] run' that by simp
    then show ?thesis
      unfolding releaseHook_def by (rule hook_seen_noop)
  qed
  show ?thesis using 1 2 3 4 5 6 by blast
qed

theorem releaseHook_watches_each_kind_once_witness:
  "releaseHook (ex_env [Inr ex_deployment, Inr ex_service, Inr ex_deployment]) ''manifest'' {} =
     (None, {ex_service, ex_deployment},
      [RESTMappingCall ex_deployment, RESTMappingCall ex_owner, WatchCall ex_deployment,
       RESTMappingCall ex_service, RESTMappingCall ex_owner, WatchCall ex_service])
   \<and> count_list
        [RESTMappingCall ex_deployment, RESTMappingCall ex_owner, WatchCall ex_deployment,
         RESTMappingCall ex_service, RESTMappingCall ex_owner, WatchCall ex_service]
        (WatchCall ex_deployment) \<le> 1
   \<and> releaseHook (ex_env [Inr ex_deployment, Inr ex_service, Inr ex_deployment]) ''manifest''
        {ex_service, ex_deployment} = (None, {ex_service, ex_deployment}, [])"
proof -
  note inst = releaseHook_watches_each_kind_once[OF ex_services_first_pass]
  have a: "\<forall>g. count_list
        [RESTMappingCall ex_deployment, RESTMappingCall ex_owner, WatchCall ex_deployment,
         RESTMappingCall ex_service, RESTMappingCall ex_owner, WatchCall ex_service]
        (WatchCall g) \<le> 1"
    by (rule inst[THEN conjunct2, THEN conjunct2, THEN conjunct1])
  have b: "releaseHook (ex_env [Inr ex_deployment, Inr ex_service, Inr ex_deployment]) ''manifest''
        {ex_service, ex_deployment} = (None, {ex_service, ex_deployment}, [])"
    using inst[THEN conjunct2, THEN conjunct2, THEN conjunct2, THEN conjunct2, THEN conjunct2]
    by simp
  show ?thesis using ex_services_first_pass a[THEN spec, of ex_deployment] b by simp
qed

text \<open>
  C8. The decoding of the manifest fails after the documents \<open>pre\<close>, which the pass
  has processed without an error. Then the pass returns the decode error; the set of
  seen kinds is the set before the pass with the kinds of \<open>pre\<close> added and nothing else;
  and a retry with the same manifest skips these kinds, makes no call and returns the
  decode error again.
\<close>

theorem releaseHook_decode_error_keeps_seen_kinds:
  assumes dec: "Decode env manifest = pre @ Inl err # rest"
    and pre: "releaseHook_loop env pre watches = (None, w1, c1)"
  shows "releaseHook env manifest watches = (Some err, w1, c1)
    \<and> w1 = watches \<union> {g. Inr g \<in> set pre}
    \<and> releaseHook env manifest w1 = (Some err, w1, [])"
proof -
  have 1: "releaseHook env manifest watches = (Some err, w1, c1)"
    using hook_append[OF pre, of "Inl err # rest"] by (simp add: releaseHook_def dec)
  have 2: "w1 = watches \<union> {g. Inr g \<in> set pre}"
    using hook_nil_watches[of env pre watches] pre by simp
  have seen: "\<forall>d\<in>set pre. \<exists>g. d = Inr g \<and> g \<in> w1"
    using hook_nil_all_seen[of env pre watches] pre by simp
  have 3: "releaseHook env manifest w1 = (Some err, w1, [])"
    using hook_seen_prefix[OF seen, of env "Inl err # rest"] by (simp add: releaseHook_def dec)
  show ?thesis using 1 2 3 by simp
qed

theorem releaseHook_decode_error_keeps_seen_kinds_witness:
  "Decode (ex_env [Inr ex_deployment, Inl (OtherError ''yaml: line 7''), Inr ex_service]) ''manifest''
     = [Inr ex_deployment] @ Inl (OtherError ''yaml: line 7'') # [Inr ex_service]
   \<and> releaseHook (ex_env [Inr ex_deployment, Inl (OtherError ''yaml: line 7''), Inr ex_service])
        ''manifest'' {} =
       (Some (OtherError ''yaml: line 7''), {ex_deployment},
        [RESTMappingCall ex_deployment, RESTMappingCall ex_owner, WatchCall ex_deployment])
   \<and> releaseHook (ex_env [Inr ex_deployment, Inl (OtherError ''yaml: line 7''), Inr ex_service])
        ''manifest'' {ex_deployment} =
       (Some (OtherError ''yaml: line 7''), {ex_deployment}, [])"
proof -
  let ?env = "ex_env [Inr ex_deployment, Inl (OtherError ''yaml: line 7''), Inr ex_service]"
  have dec: "Decode ?env ''manifest''
     = [Inr ex_deployment] @ Inl (OtherError ''yaml: line 7'') # [Inr ex_service]"
    by (simp add: ex_env_simps)
  note inst = releaseHook_decode_error_keeps_seen_kinds[OF dec ex_prefix_pass]
  show ?thesis
    using dec inst[THEN conjunct1] inst[THEN conjunct2, THEN conjunct2] by simp
qed

end
